theory Spec2Isabelle
  imports Main "HOL-Library.Finite_Map" "HOL-Library.FSet"
begin

section \<open>Python values used by the sources\<close>

text \<open>
  Python integers are unbounded: \<open>int\<close>. Strings are \<open>string\<close>, restricted to ASCII
  wherever the source calls \<open>upper()\<close>. An f-string \<open>f"{n}"\<close> of an integer is its decimal
  numeral, \<open>str_int n\<close>. The exceptions the sources can raise are values of \<open>exn\<close>.
\<close>

datatype exn = AttributeError | KeyError | TypeError | ValueError | OSError | RequestException

definition digit_char :: "nat \<Rightarrow> char" where
  "digit_char d = char_of (of_char CHR ''0'' + d)"

function str_nat :: "nat \<Rightarrow> string" where
  "str_nat n = (if n < 10 then [digit_char n] else str_nat (n div 10) @ [digit_char (n mod 10)])"
  by pat_completeness auto
termination
  by (relation "measure id") auto

declare str_nat.simps [simp del]

definition str_int :: "int \<Rightarrow> string" where
  "str_int i = (if i < 0 then CHR ''-'' # str_nat (nat (- i)) else str_nat (nat i))"

definition upper_char :: "char \<Rightarrow> char" where
  "upper_char c =
     (let k = (of_char c :: nat)
      in if of_char CHR ''a'' \<le> k \<and> k \<le> of_char CHR ''z'' then char_of (k - 32) else c)"

definition upper :: "string \<Rightarrow> string" where
  "upper s = map upper_char s"

text \<open>\<open>str.strip()\<close> without arguments, on ASCII: whitespace is removed at both ends.\<close>

definition is_space :: "char \<Rightarrow> bool" where
  "is_space c = ((of_char c :: nat) \<in> {9, 10, 11, 12, 13, 28, 29, 30, 31, 32})"

definition strip :: "string \<Rightarrow> string" where
  "strip s = rev (dropWhile is_space (rev (dropWhile is_space s)))"

section \<open>The name database: class NameDB\<close>

record entry =
  key :: string
  kind :: string
  champ_slug :: string
  champ_id :: int
  skin_id :: "int option"

text \<open>
  The fields of \<open>NameDB\<close>. A dict that the source only looks keys up in is a map; the dict
  it iterates with \<open>items()\<close> is an association list in insertion order. \<open>global_entries\<close> is
  \<open>None\<close> while the attribute \<open>_global_entries\<close> is missing or \<open>None\<close>.
\<close>

record name_db =
  ver :: "string option"
  langs :: "string list"
  canonical_lang :: "string option"
  slug_by_id :: "int \<rightharpoonup> string"
  champ_name_by_id_by_lang :: "(string \<times> (int \<times> string) list) list"
  champ_name_by_id :: "int \<rightharpoonup> string"
  entries_by_champ :: "string \<rightharpoonup> entry list"
  skin_name_by_id :: "int \<rightharpoonup> string"
  skins_loaded :: "string set"
  global_entries :: "entry list option"

text \<open>
  A champion file of the data source, as \<open>_ensure_champ\<close> reads it: either not a JSON object
  (its \<open>get\<close> raises AttributeError), or an object whose \<open>data\<close> maps a slug to the champion's
  skins. Of a skin, \<open>sk_id\<close> is \<open>int(s.get("id"))\<close>, \<open>None\<close> when that raises.
\<close>

record skin =
  sk_id :: "int option"
  sk_name :: "string option"
  sk_num :: "int option"

datatype dd_json = Not_an_object | Champion_data "string \<rightharpoonup> skin list"

text \<open>
  The cache directory and the network. \<open>files\<close> gives, for a file name of the cache
  directory, \<open>None\<close> when there is no such file, \<open>Some None\<close> when \<open>json.load\<close> raises on
  it, and its content otherwise. \<open>net k url\<close> is what the \<open>k\<close>-th request of the run gives:
  the exception raised by \<open>requests.get\<close>, \<open>raise_for_status\<close> or \<open>r.json()\<close>, or the
  data. \<open>can_write\<close> says whether the cache file can be written.
\<close>

record dd =
  files :: "string \<rightharpoonup> dd_json option"
  net :: "nat \<Rightarrow> string \<Rightarrow> exn + dd_json"
  can_write :: "string \<Rightarrow> bool"
  n_fetch :: nat

definition cache_json :: "string \<Rightarrow> string \<Rightarrow> dd \<Rightarrow> (exn + dd_json) \<times> dd" where
  "cache_json name url d =
     (case files d name of
        Some (Some j) \<Rightarrow> (Inr j, d)
      | _ \<Rightarrow>
          (let d1 = d\<lparr>n_fetch := Suc (n_fetch d)\<rparr>
           in case net d (n_fetch d) url of
                Inl x \<Rightarrow> (Inl x, d1)
              | Inr j \<Rightarrow>
                  if can_write d name then (Inr j, d1\<lparr>files := (files d1)(name \<mapsto> Some j)\<rparr>)
                  else (Inl OSError, d1)))"

text \<open>
  The body of \<open>for s in skins\<close>, on the triple of \<open>out\<close>, \<open>keys_seen\<close> and
  \<open>skin_name_by_id\<close>. \<open>int(s.get("id"))\<close> comes first, so an exception leaves the triple as
  it was.
\<close>

type_synonym skin_acc = "entry list \<times> string set \<times> (int \<rightharpoonup> string)"

definition add_label :: "string \<Rightarrow> int \<Rightarrow> int \<Rightarrow> string \<Rightarrow> entry list \<times> string set \<Rightarrow> entry list \<times> string set" where
  "add_label slug cid sid label acc =
     (case acc of (out, keys_seen) \<Rightarrow>
        if label \<in> keys_seen then (out, keys_seen)
        else (out @ [\<lparr>key = label, kind = ''skin'', champ_slug = slug, champ_id = cid,
                       skin_id = Some sid\<rparr>],
              insert label keys_seen))"

definition skin_body :: "string \<Rightarrow> string \<Rightarrow> int \<Rightarrow> skin \<Rightarrow> skin_acc \<Rightarrow> exn + skin_acc" where
  "skin_body cname slug cid sk acc =
     (case acc of (out, keys_seen, names) \<Rightarrow>
        case sk_id sk of
          None \<Rightarrow> Inl TypeError
        | Some sid \<Rightarrow>
            (let sname = strip (case sk_name sk of None \<Rightarrow> [] | Some n \<Rightarrow> n);
                 num = (case sk_num sk of None \<Rightarrow> 0 | Some n \<Rightarrow> n);
                 names1 = (if sid \<noteq> 0 then names(sid \<mapsto> sname) else names)
             in if num = 0 \<or> sname = [] then Inr (out, keys_seen, names1)
                else
                  (let full = cname @ '' '' @ sname;
                       (out2, seen2) =
                         add_label slug cid sid sname (add_label slug cid sid full (out, keys_seen))
                   in Inr (out2, seen2, names1))))"

text \<open>
  \<open>try: ... except Exception: pass\<close> around a body: every exception of \<open>exn\<close> is an
  \<open>Exception\<close>, so whatever the body raises is dropped, and the program goes on with what
  it had, the second argument. A result \<open>Inl\<close> of a loop or a method below is an
  exception that leaves it.
\<close>

definition try_pass :: "exn + 'a \<Rightarrow> 'a \<Rightarrow> exn + 'a" where
  "try_pass r kept = (case r of Inl x \<Rightarrow> Inr kept | Inr v \<Rightarrow> Inr v)"

fun skins_loop :: "string \<Rightarrow> string \<Rightarrow> int \<Rightarrow> skin list \<Rightarrow> skin_acc \<Rightarrow> exn + skin_acc" where
  "skins_loop cname slug cid [] acc = Inr acc"
| "skins_loop cname slug cid (sk # sks) acc =
     (case try_pass (skin_body cname slug cid sk acc) acc of
        Inl x \<Rightarrow> Inl x
      | Inr acc1 \<Rightarrow> skins_loop cname slug cid sks acc1)"

text \<open>\<open>a or b\<close> on names: \<open>None\<close> and the empty string are falsy.\<close>

definition name_or :: "string option \<Rightarrow> string option \<Rightarrow> string option" where
  "name_or a b = (case a of None \<Rightarrow> b | Some n \<Rightarrow> if n = [] then b else Some n)"

definition display_name :: "name_db \<Rightarrow> string \<Rightarrow> string \<Rightarrow> int \<Rightarrow> string" where
  "display_name db lang slug cid =
     (case name_or
             (case map_of (champ_name_by_id_by_lang db) lang of
                None \<Rightarrow> None
              | Some mp \<Rightarrow> map_of mp cid)
             (champ_name_by_id db cid) of
        None \<Rightarrow> slug
      | Some n \<Rightarrow> if n = [] then slug else n)"

text \<open>
  The cache file and the address of a champion's data in one language:
  \<open>f"champ_{slug}_{self.ver}_{lang}.json"\<close> and the f-string of the URL.
\<close>

definition ver_text :: "name_db \<Rightarrow> string" where
  "ver_text d = (case ver d of None \<Rightarrow> ''None'' | Some x \<Rightarrow> x)"

definition champ_file :: "name_db \<Rightarrow> string \<Rightarrow> string \<Rightarrow> string" where
  "champ_file d slug lang = ''champ_'' @ slug @ ''_'' @ ver_text d @ ''_'' @ lang @ ''.json''"

definition champ_url :: "name_db \<Rightarrow> string \<Rightarrow> string \<Rightarrow> string" where
  "champ_url d slug lang =
     ''https://ddragon.leagueoflegends.com/cdn/'' @ ver_text d @ ''/data/'' @ lang
       @ ''/champion/'' @ slug @ ''.json''"

text \<open>
  The body of \<open>for lang in self.langs\<close>, which stands inside its own \<open>try\<close>, and the
  loop.
\<close>

definition lang_body ::
  "name_db \<Rightarrow> string \<Rightarrow> int \<Rightarrow> string \<Rightarrow> skin_acc \<times> dd \<Rightarrow> (exn + skin_acc) \<times> dd" where
  "lang_body d0 slug cid lang accd =
     (case accd of (acc, d) \<Rightarrow>
        case cache_json (champ_file d0 slug lang) (champ_url d0 slug lang) d of
          (Inl x, d1) \<Rightarrow> (Inl x, d1)
        | (Inr Not_an_object, d1) \<Rightarrow> (Inl AttributeError, d1)
        | (Inr (Champion_data m), d1) \<Rightarrow>
            (let skins = (case m slug of None \<Rightarrow> [] | Some l \<Rightarrow> l);
                 cname = display_name d0 lang slug cid
             in (skins_loop cname slug cid skins acc, d1)))"

fun langs_loop ::
  "name_db \<Rightarrow> string \<Rightarrow> int \<Rightarrow> string list \<Rightarrow> skin_acc \<times> dd \<Rightarrow> (exn + skin_acc) \<times> dd" where
  "langs_loop d0 slug cid [] accd = (Inr (fst accd), snd accd)"
| "langs_loop d0 slug cid (lang # ls) accd =
     (case lang_body d0 slug cid lang accd of
        (r, d1) \<Rightarrow>
          (case try_pass r (fst accd) of
             Inl x \<Rightarrow> (Inl x, d1)
           | Inr acc1 \<Rightarrow> langs_loop d0 slug cid ls (acc1, d1)))"

definition ensure_champ :: "string \<Rightarrow> int \<Rightarrow> name_db \<times> dd \<Rightarrow> exn + name_db \<times> dd" where
  "ensure_champ slug cid dbd =
     (case dbd of (d0, d) \<Rightarrow>
        if slug \<in> skins_loaded d0 then Inr (d0, d)
        else
          (let out = (case entries_by_champ d0 slug of None \<Rightarrow> [] | Some l \<Rightarrow> l)
           in case langs_loop d0 slug cid (langs d0) ((out, {}, skin_name_by_id d0), d) of
                (Inl x, d1) \<Rightarrow> Inl x
              | (Inr (out1, seen1, names1), d1) \<Rightarrow>
                  Inr (d0\<lparr>entries_by_champ := (entries_by_champ d0)(slug \<mapsto> out1),
                          skin_name_by_id := names1,
                          skins_loaded := insert slug (skins_loaded d0)\<rparr>, d1)))"

text \<open>The two nested loops that build \<open>_global_entries\<close>.\<close>

fun global_of_names :: "name_db \<Rightarrow> (int \<times> string) list \<Rightarrow> entry list \<Rightarrow> entry list" where
  "global_of_names db [] glb = glb"
| "global_of_names db ((cid, nm) # rest) glb =
     global_of_names db rest
       (case slug_by_id db cid of
          None \<Rightarrow> glb
        | Some slug \<Rightarrow>
            if slug = [] then glb
            else glb @ [\<lparr>key = nm, kind = ''champion'', champ_slug = slug, champ_id = cid,
                          skin_id = None\<rparr>])"

fun global_of_langs :: "name_db \<Rightarrow> (string \<times> (int \<times> string) list) list \<Rightarrow> entry list \<Rightarrow> entry list" where
  "global_of_langs db [] glb = glb"
| "global_of_langs db ((lang, mp) # rest) glb =
     global_of_langs db rest (global_of_names db mp glb)"

definition global_candidates :: "name_db \<times> dd \<Rightarrow> entry list \<times> name_db \<times> dd" where
  "global_candidates dbd =
     (case dbd of (db, d) \<Rightarrow>
        case global_entries db of
          Some glb \<Rightarrow> (glb, db, d)
        | None \<Rightarrow>
            (let glb = global_of_langs db (champ_name_by_id_by_lang db) []
             in (glb, db\<lparr>global_entries := Some glb\<rparr>, d)))"

text \<open>
  \<open>candidates_for_champ\<close>. The subscript \<open>self.slug_by_id[champ_id]\<close> raises KeyError on
  a missing key.
\<close>

definition candidates_for_champ ::
  "int option \<Rightarrow> name_db \<times> dd \<Rightarrow> exn + entry list \<times> name_db \<times> dd" where
  "candidates_for_champ champ dbd =
     (case champ of
        None \<Rightarrow> Inr (global_candidates dbd)
      | Some cid \<Rightarrow>
          if cid \<noteq> 0 \<and> slug_by_id (fst dbd) cid \<noteq> None then
            (case slug_by_id (fst dbd) cid of
               None \<Rightarrow> Inl KeyError
             | Some slug \<Rightarrow>
                 (case ensure_champ slug cid dbd of
                    Inl x \<Rightarrow> Inl x
                  | Inr (db1, d1) \<Rightarrow>
                      Inr (case entries_by_champ db1 slug of None \<Rightarrow> [] | Some l \<Rightarrow> l, db1, d1)))
          else Inr (global_candidates dbd))"

section \<open>The connection manager: class LCU\<close>

text \<open>\<open>str.split(":")\<close>.\<close>

fun split_colon :: "string \<Rightarrow> string list" where
  "split_colon [] = [[]]"
| "split_colon (c # cs) =
     (if c = CHR '':'' then [] # split_colon cs
      else (case split_colon cs of [] \<Rightarrow> [[c]] | x # xs \<Rightarrow> (c # x) # xs))"

text \<open>
  The object \<open>requests.Session()\<close> as the source configures it, and the fields of \<open>LCU\<close>.
  Modification times are only compared with each other and with zero, so they are
  integers here.
\<close>

record http_session =
  verify :: bool
  auth :: "(string \<times> string) option"
  content_type :: "string option"

record lcu =
  ok :: bool
  port :: "int option"
  pw :: "string option"
  base :: "string option"
  http :: "http_session option"
  explicit_lockfile :: "string option"
  lf_path :: "string option"
  lf_mtime :: int

text \<open>
  The answer to one HTTP request: \<open>session.get\<close> raises, or there is a response with a
  status code and a body; the body is \<open>None\<close> when \<open>r.json()\<close> raises or gives \<open>None\<close>.
\<close>

datatype 'a http_result = Raises exn | Response int "'a option"

text \<open>
  The machine the client runs on, as the manager observes it. The first argument of each
  function is the number of observations made before, so that files, clock and network
  may change between one observation and the next. \<open>discover\<close> is the outcome of
  \<open>_find_lockfile\<close>, the search over the explicit path, the environment, the well-known
  places and the process table; \<open>read_text\<close> and \<open>getmtime\<close> give \<open>None\<close> when they raise;
  \<open>int_of_str\<close> is \<open>int()\<close> on a string, \<open>None\<close> for ValueError.
\<close>

record 'a machine =
  discover :: "nat \<Rightarrow> string option \<Rightarrow> string option"
  isfile :: "nat \<Rightarrow> string \<Rightarrow> bool"
  getmtime :: "nat \<Rightarrow> string \<Rightarrow> int option"
  read_text :: "nat \<Rightarrow> string \<Rightarrow> string option"
  time_now :: "nat \<Rightarrow> int"
  int_of_str :: "string \<Rightarrow> int option"
  http_get :: "nat \<Rightarrow> string \<Rightarrow> http_session option \<Rightarrow> int \<Rightarrow> 'a http_result"

text \<open>
  A run of the manager: the object, the number of observations so far, and the calls made,
  in order.
\<close>

datatype call = Refresh_if_needed bool | Session_get string

record run =
  conn :: lcu
  tick :: nat
  calls :: "call list"

definition disable :: "lcu \<Rightarrow> lcu" where
  "disable c =
     c\<lparr>ok := False, base := None, port := None, pw := None,
       http := Some \<lparr>verify = False, auth = None, content_type = None\<rparr>\<rparr>"

text \<open>
  The five fields of the lock file: \<open>read().split(":")[:5]\<close> unpacked into five names
  raises ValueError unless there are five, and so does \<open>int(port)\<close> on a string that is
  not a number.
\<close>

definition parse_lockfile :: "'a machine \<Rightarrow> string \<Rightarrow> exn + (int \<times> string)" where
  "parse_lockfile m text =
     (case take 5 (split_colon text) of
        [name, pid, port_s, pw_s, proto] \<Rightarrow>
          (case int_of_str m port_s of
             None \<Rightarrow> Inl ValueError
           | Some p \<Rightarrow> Inr (p, pw_s))
      | _ \<Rightarrow> Inl ValueError)"

definition init_from_lockfile :: "'a machine \<Rightarrow> run \<Rightarrow> run" where
  "init_from_lockfile m r =
     (let lf = discover m (tick r) (explicit_lockfile (conn r));
          r1 = r\<lparr>conn := (conn r)\<lparr>lf_path := lf\<rparr>, tick := Suc (tick r)\<rparr>
      in case lf of
           None \<Rightarrow> r1\<lparr>conn := disable (conn r1)\<rparr>
         | Some path \<Rightarrow>
             if path = [] then r1\<lparr>conn := disable (conn r1)\<rparr>
             else if \<not> isfile m (tick r1) path then
               r1\<lparr>conn := disable (conn r1), tick := Suc (tick r1)\<rparr>
             else
               (let r2 = r1\<lparr>tick := Suc (Suc (tick r1))\<rparr>
                in case (case read_text m (Suc (tick r1)) path of
                           None \<Rightarrow> Inl OSError
                         | Some text \<Rightarrow> parse_lockfile m text) of
                     Inl _ \<Rightarrow> r2\<lparr>conn := disable (conn r2)\<rparr>
                   | Inr (p, secret) \<Rightarrow>
                       (let mt = (case getmtime m (tick r2) path of
                                    None \<Rightarrow> time_now m (Suc (tick r2))
                                  | Some t \<Rightarrow> t)
                        in r2\<lparr>conn := (conn r2)
                                \<lparr>port := Some p, pw := Some secret,
                                  base := Some (''https://127.0.0.1:'' @ str_int p),
                                  http := Some \<lparr>verify = False, auth = Some (''riot'', secret),
                                                content_type = Some ''application/json''\<rparr>,
                                  ok := True, lf_mtime := mt\<rparr>,
                              tick := Suc (Suc (tick r2))\<rparr>)))"

definition refresh_if_needed :: "'a machine \<Rightarrow> bool \<Rightarrow> run \<Rightarrow> run" where
  "refresh_if_needed m force r0 =
     (let r = r0\<lparr>calls := calls r0 @ [Refresh_if_needed force]\<rparr>;
          lf = discover m (tick r) (explicit_lockfile (conn r));
          r1 = r\<lparr>tick := Suc (tick r)\<rparr>;
          absent = r1\<lparr>conn := (disable (conn r1))\<lparr>lf_path := None, lf_mtime := 0\<rparr>\<rparr>
      in case lf of
           None \<Rightarrow> absent
         | Some path \<Rightarrow>
             if path = [] then absent
             else if \<not> isfile m (tick r1) path then absent\<lparr>tick := Suc (tick r1)\<rparr>
             else
               (let mt = (case getmtime m (Suc (tick r1)) path of None \<Rightarrow> 0 | Some t \<Rightarrow> t);
                    r2 = r1\<lparr>tick := Suc (Suc (tick r1))\<rparr>
                in if force \<or> Some path \<noteq> lf_path (conn r2)
                      \<or> (mt \<noteq> 0 \<and> mt \<noteq> lf_mtime (conn r2)) \<or> \<not> ok (conn r2)
                   then init_from_lockfile m (r2\<lparr>conn := (conn r2)\<lparr>lf_path := Some path\<rparr>\<rparr>)
                   else r2))"

text \<open>
  One request and what the \<open>try\<close> block makes of the answer: 404 and 405 give \<open>None\<close>,
  \<open>raise_for_status\<close> raises on the other codes from 400 to 599 (HTTPError, which is a
  RequestException), and anything else gives the body.
\<close>

definition attempt :: "'a machine \<Rightarrow> string \<Rightarrow> int \<Rightarrow> run \<Rightarrow> (exn + 'a option) \<times> run" where
  "attempt m path timeout r =
     (let url = (case base (conn r) of None \<Rightarrow> [] | Some b \<Rightarrow> b) @ path;
          r1 = r\<lparr>tick := Suc (tick r), calls := calls r @ [Session_get url]\<rparr>
      in case http_get m (tick r) url (http (conn r)) timeout of
           Raises x \<Rightarrow> (Inl x, r1)
         | Response code body \<Rightarrow>
             if code = 404 \<or> code = 405 then (Inr None, r1)
             else if 400 \<le> code \<and> code < 600 then (Inl RequestException, r1)
             else (Inr body, r1))"

text \<open>
  \<open>LCU.get\<close>. \<open>except requests.exceptions.RequestException\<close> catches that exception only:
  any other one leaves the method, which is the result \<open>Inl\<close>.
\<close>

definition get :: "'a machine \<Rightarrow> string \<Rightarrow> int \<Rightarrow> run \<Rightarrow> (exn + 'a option) \<times> run" where
  "get m path timeout r =
     (let r1 = (if \<not> ok (conn r) then refresh_if_needed m False r else r)
      in if \<not> ok (conn r1) then (Inr None, r1)
         else
           (case attempt m path timeout r1 of
              (Inr v, r2) \<Rightarrow> (Inr v, r2)
            | (Inl x, r2) \<Rightarrow>
                if x \<noteq> RequestException then (Inl x, r2)
                else
                  (let r3 = refresh_if_needed m True r2
                   in if \<not> ok (conn r3) then (Inr None, r3)
                      else
                        (case attempt m path timeout r3 of
                           (Inr v, r4) \<Rightarrow> (Inr v, r4)
                         | (Inl y, r4) \<Rightarrow>
                             if y \<noteq> RequestException then (Inl y, r4) else (Inr None, r4)))))"

section \<open>Payloads of the client's event channel\<close>

text \<open>
  The payloads are JSON objects of the client's schema. A field that \<open>dict.get\<close> finds
  missing or \<open>null\<close> is \<open>None\<close>; \<open>localPlayerCellId\<close> is read with a default, so a
  missing key (\<open>None\<close>) differs from a present \<open>null\<close> (\<open>Some None\<close>).
\<close>

record player =
  cellId :: "int option"

record action =
  actorCellId :: "int option"

record timer =
  t_phase :: "string option"
  adjustedTimeLeftInPhase :: "int option"

record session =
  localPlayerCellId :: "int option option"
  myTeam :: "player list option"
  theirTeam :: "player list option"
  actions :: "action list option list option"
  timer :: "timer option"

text \<open>The empty dict \<open>{}\<close>, read as a session and as a timer.\<close>

definition empty_session :: session where
  "empty_session =
     \<lparr>localPlayerCellId = None, myTeam = None, theirTeam = None, actions = None, timer = None\<rparr>"

definition empty_timer :: timer where
  "empty_timer = \<lparr>t_phase = None, adjustedTimeLeftInPhase = None\<rparr>"

text \<open>The value under the key \<open>data\<close>: \<open>null\<close>, a string, an integer or a session object.\<close>

datatype data = JNull | JStr string | JInt int | JSession session

record payload =
  uri :: "string option"
  data :: data

section \<open>Shared state\<close>

text \<open>
  Modelled from the spec: the class SharedState (state/shared_state.py) is not among the
  sources. The record has the fields that websocket_thread.py reads and writes, each with
  the type of the values the source stores in it; \<open>ticker_seq\<close> may be \<open>None\<close>, as the
  source's \<open>(ticker_seq or 0)\<close> allows. Instants of \<open>time.monotonic()\<close> are only stored,
  so they are integers here.
\<close>

type_synonym lock_map = "(int, int) fmap"

record shared_state =
  phase :: "string option"
  hovered_champ_id :: "int option"
  locked_champ_id :: "int option"
  local_cell_id :: "int option"
  players_visible :: int
  locks_by_cell :: lock_map
  all_locked_announced :: bool
  loadout_countdown_active :: bool
  loadout_left0_ms :: int
  loadout_t0 :: int
  ticker_seq :: "int option"
  current_ticker :: int
  last_hovered_skin_key :: "string option"
  last_hovered_skin_id :: "int option"
  last_hovered_skin_slug :: "string option"
  last_hover_written :: bool
  processed_action_ids :: "int set"

section \<open>The event thread and what it can observe\<close>

text \<open>
  What the thread does beyond changing the shared state is recorded in a trace, in program
  order: every \<open>log.info\<close> line (with the values it prints; the lock lines also carry the
  slot id they are about), every call of \<open>lcu.session()\<close>, every \<open>time.sleep(0.06)\<close>,
  entering and leaving \<open>with state.timer_lock\<close>, and starting a ticker.
\<close>

datatype event =
    Log_phase string
  | Log_hover_champ string int
  | Log_players int
  | Log_lock_added int string int int
  | Log_lock_champ string int
  | Log_lock_removed int string int int
  | Log_all_locked int int
  | Log_loadout_start int string int int
  | Lcu_session_call
  | Sleep_60ms
  | Timer_lock_acquire
  | Timer_lock_release
  | Ticker_start int string

record thread =
  state :: shared_state
  db :: name_db
  ticker :: "(int \<times> string) option"
  timer_hz :: int
  fallback_ms :: int
  trace :: "event list"
  n_session :: nat
  n_monotonic :: nat
  n_alive :: nat

text \<open>
  The environment answers the thread's calls: the \<open>k\<close>-th call of \<open>lcu.session()\<close>, of
  \<open>time.monotonic()\<close> and of \<open>ticker.is_alive()\<close>, Python's
  \<open>int()\<close> on a string (\<open>None\<close> for ValueError), and \<open>compute_locked\<close> of lcu/utils.py,
  which is not among the sources and is taken as a parameter.
\<close>

record env =
  lcu_session :: "nat \<Rightarrow> session option"
  monotonic :: "nat \<Rightarrow> int"
  ticker_is_alive :: "nat \<Rightarrow> bool"
  py_int :: "string \<Rightarrow> int option"
  compute_locked :: "session \<Rightarrow> lock_map"

definition emit :: "event \<Rightarrow> thread \<Rightarrow> thread" where
  "emit ev w = w\<lparr>trace := trace w @ [ev]\<rparr>"

definition locked_count :: "shared_state \<Rightarrow> int" where
  "locked_count s = int (fcard (fmdom (locks_by_cell s)))"

section \<open>The countdown: \<open>_maybe_start_timer\<close>\<close>

text \<open>
  \<open>int(t.get("adjustedTimeLeftInPhase") or 0)\<close> and \<open>str(t.get("phase") or "").upper()\<close>.
\<close>

definition left_ms_of :: "timer \<Rightarrow> int" where
  "left_ms_of t = (case adjustedTimeLeftInPhase t of None \<Rightarrow> 0 | Some n \<Rightarrow> n)"

definition phase_timer_of :: "timer \<Rightarrow> string" where
  "phase_timer_of t = upper (case t_phase t of None \<Rightarrow> [] | Some p \<Rightarrow> p)"

definition timer_of :: "session \<Rightarrow> timer" where
  "timer_of sess = (case timer sess of None \<Rightarrow> empty_timer | Some t \<Rightarrow> t)"

text \<open>
  The loop \<open>for _ in range(8)\<close>: the first argument counts the iterations left. Each one
  calls \<open>lcu.session()\<close>, overwrites \<open>left_ms\<close>, and either breaks with \<open>probe_used\<close> set or
  sleeps 60 ms. The result is \<open>(left_ms, probe_used)\<close> and the thread.
\<close>

fun probe :: "env \<Rightarrow> nat \<Rightarrow> int \<Rightarrow> thread \<Rightarrow> (int \<times> bool) \<times> thread" where
  "probe e 0 left_ms w = ((left_ms, False), w)"
| "probe e (Suc n) left_ms w =
     (let s2 = (case lcu_session e (n_session w) of None \<Rightarrow> empty_session | Some s \<Rightarrow> s);
          w1 = emit Lcu_session_call (w\<lparr>n_session := Suc (n_session w)\<rparr>);
          left2 = left_ms_of (timer_of s2)
      in if left2 > 0 then ((left2, True), w1)
         else probe e n left2 (emit Sleep_60ms w1))"

text \<open>
  The body of \<open>if should_start:\<close>, under \<open>with self.state.timer_lock\<close>. A ticker is
  created and started when there is none or the one there is no longer alive; the class
  LoadoutTicker is not among the sources, so the thread keeps the identifier and mode it
  was created with.
\<close>

definition mode_of :: "string \<Rightarrow> int \<Rightarrow> string" where
  "mode_of phase_timer left_ms =
     (if phase_timer = ''FINALIZATION'' \<and> left_ms > 0 then ''finalization'' else ''lcu-probe'')"

definition start_ticker :: "env \<Rightarrow> string \<Rightarrow> thread \<Rightarrow> thread" where
  "start_ticker e mode w =
     (let create = (\<lambda>w. emit (Ticker_start (current_ticker (state w)) mode)
                           (w\<lparr>ticker := Some (current_ticker (state w), mode)\<rparr>))
      in case ticker w of
           None \<Rightarrow> create w
         | Some _ \<Rightarrow>
             (let alive = ticker_is_alive e (n_alive w);
                  w1 = w\<lparr>n_alive := Suc (n_alive w)\<rparr>
              in if \<not> alive then create w1 else w1))"

definition arm :: "env \<Rightarrow> string \<Rightarrow> int \<Rightarrow> thread \<Rightarrow> thread" where
  "arm e phase_timer left_ms w =
     (let w1 = emit Timer_lock_acquire w;
          w2 =
           (if \<not> loadout_countdown_active (state w1) then
              (let seq = (case ticker_seq (state w1) of None \<Rightarrow> 0 | Some n \<Rightarrow> n) + 1;
                   st = (state w1)\<lparr>loadout_left0_ms := left_ms,
                                   loadout_t0 := monotonic e (n_monotonic w1),
                                   ticker_seq := Some seq,
                                   current_ticker := seq,
                                   loadout_countdown_active := True\<rparr>;
                   mode = mode_of phase_timer left_ms;
                   w3 = emit (Log_loadout_start seq mode left_ms (timer_hz w1))
                          (w1\<lparr>state := st, n_monotonic := Suc (n_monotonic w1)\<rparr>)
               in start_ticker e mode w3)
            else w1)
      in emit Timer_lock_release w2)"

definition maybe_start_timer :: "env \<Rightarrow> session \<Rightarrow> thread \<Rightarrow> thread" where
  "maybe_start_timer e sess w =
     (let t = timer_of sess;
          phase_timer = phase_timer_of t;
          left_ms = left_ms_of t;
          total = players_visible (state w);
          locked = locked_count (state w)
      in if phase_timer = ''FINALIZATION'' \<and> left_ms > 0 then arm e phase_timer left_ms w
         else if total > 0 \<and> locked \<ge> total then
           (let ((left2, probe_used), w1) =
                  (if left_ms \<le> 0 then probe e 8 left_ms w else ((left_ms, False), w))
            in if left2 > 0 then arm e phase_timer left2 w1 else w1)
         else w)"

section \<open>The event handler: \<open>_handle_api_event\<close>\<close>

subsection \<open>Phase update\<close>

definition known_phases :: "string list" where
  "known_phases =
     [''Lobby'', ''Matchmaking'', ''ReadyCheck'', ''ChampSelect'', ''GameStart'',
      ''InProgress'', ''EndOfGame'']"

definition handle_phase :: "data \<Rightarrow> thread \<Rightarrow> thread" where
  "handle_phase d w =
     (case d of
        JStr ph \<Rightarrow>
          if Some ph \<noteq> phase (state w) then
            (let w1 = (if ph \<in> set known_phases then emit (Log_phase ph) w else w);
                 st = (state w1)\<lparr>phase := Some ph\<rparr>
             in if ph = ''ChampSelect'' then
                  w1\<lparr>state := st\<lparr>last_hovered_skin_key := None,
                                  last_hovered_skin_id := None,
                                  last_hovered_skin_slug := None,
                                  last_hover_written := False,
                                  processed_action_ids := {}\<rparr>\<rparr>
                else
                  w1\<lparr>state := st\<lparr>hovered_champ_id := None,
                                  players_visible := 0,
                                  locks_by_cell := fmempty,
                                  all_locked_announced := False,
                                  loadout_countdown_active := False\<rparr>\<rparr>)
          else w
      | _ \<Rightarrow> w)"

subsection \<open>Hover update\<close>

text \<open>\<open>int(cid) if cid is not None else None\<close>, with every exception giving \<open>None\<close>.\<close>

definition int_of_data :: "env \<Rightarrow> data \<Rightarrow> int option" where
  "int_of_data e d =
     (case d of JNull \<Rightarrow> None | JInt n \<Rightarrow> Some n | JStr s \<Rightarrow> py_int e s | JSession _ \<Rightarrow> None)"

definition handle_hover :: "env \<Rightarrow> data \<Rightarrow> thread \<Rightarrow> thread" where
  "handle_hover e d w =
     (case int_of_data e d of
        None \<Rightarrow> w
      | Some cid \<Rightarrow>
          if cid \<noteq> 0 \<and> Some cid \<noteq> hovered_champ_id (state w) then
            (let nm = (case champ_name_by_id (db w) cid of
                         None \<Rightarrow> ''champ_'' @ str_int cid
                       | Some n \<Rightarrow> if n = [] then ''champ_'' @ str_int cid else n)
             in (emit (Log_hover_champ nm cid) w)
                  \<lparr>state := (state w)\<lparr>hovered_champ_id := Some cid\<rparr>\<rparr>)
          else w)"

subsection \<open>Session update\<close>

text \<open>\<open>xs or []\<close> for a list that may be missing or \<open>null\<close>.\<close>

definition or_empty :: "'a list option \<Rightarrow> 'a list" where
  "or_empty xs = (case xs of None \<Rightarrow> [] | Some l \<Rightarrow> l)"

text \<open>The inner loops: add every slot id that is not \<open>None\<close> to the set \<open>seen\<close>.\<close>

fun add_cells :: "int option list \<Rightarrow> int set \<Rightarrow> int set" where
  "add_cells [] seen = seen"
| "add_cells (c # cs) seen =
     add_cells cs (case c of None \<Rightarrow> seen | Some cid \<Rightarrow> insert cid seen)"

definition roster_cells :: "session \<Rightarrow> int set" where
  "roster_cells sess =
     add_cells (map cellId (or_empty (theirTeam sess)))
       (add_cells (map cellId (or_empty (myTeam sess))) {})"

fun add_rounds :: "action list option list \<Rightarrow> int set \<Rightarrow> int set" where
  "add_rounds [] seen = seen"
| "add_rounds (rnd # rnds) seen =
     add_rounds rnds (add_cells (map actorCellId (or_empty rnd)) seen)"

definition visible_cells :: "session \<Rightarrow> int set" where
  "visible_cells sess =
     (let seen = roster_cells sess
      in if seen = {} then add_rounds (or_empty (actions sess)) seen else seen)"

definition update_players :: "session \<Rightarrow> thread \<Rightarrow> thread" where
  "update_players sess w =
     (let count_visible = int (card (visible_cells sess))
      in if count_visible \<noteq> players_visible (state w) \<and> count_visible > 0 then
           emit (Log_players count_visible)
             (w\<lparr>state := (state w)\<lparr>players_visible := count_visible\<rparr>\<rparr>)
         else w)"

text \<open>\<open>champ_name_by_id.get(int(ch), f"#{ch}")\<close>.\<close>

definition champ_label :: "name_db \<Rightarrow> int \<Rightarrow> string" where
  "champ_label d ch =
     (case champ_name_by_id d ch of None \<Rightarrow> CHR ''#'' # str_int ch | Some n \<Rightarrow> n)"

text \<open>
  \<open>for cid in added\<close>. The subscript \<open>new_locks[cid]\<close> raises KeyError on a missing key;
  the loop then stops with the state as it is.
\<close>

fun log_added :: "env \<Rightarrow> lock_map \<Rightarrow> int list \<Rightarrow> thread \<Rightarrow> exn option \<times> thread" where
  "log_added e new_locks [] w = (None, w)"
| "log_added e new_locks (cid # cids) w =
     (case fmlookup new_locks cid of
        None \<Rightarrow> (Some KeyError, w)
      | Some ch \<Rightarrow>
          (let label = champ_label (db w) ch;
               w1 = emit (Log_lock_added cid label (int (fcard (fmdom new_locks)))
                            (players_visible (state w))) w;
               w2 = (case local_cell_id (state w1) of
                       None \<Rightarrow> w1
                     | Some l \<Rightarrow>
                         if cid = l then
                           (emit (Log_lock_champ label ch) w1)
                             \<lparr>state := (state w1)\<lparr>locked_champ_id := Some ch\<rparr>\<rparr>
                         else w1)
           in log_added e new_locks cids w2))"

text \<open>\<open>for cid in removed\<close>, with \<open>locks_by_cell.get(cid, 0)\<close>.\<close>

fun log_removed :: "env \<Rightarrow> lock_map \<Rightarrow> int list \<Rightarrow> thread \<Rightarrow> thread" where
  "log_removed e new_locks [] w = w"
| "log_removed e new_locks (cid # cids) w =
     (let ch = (case fmlookup (locks_by_cell (state w)) cid of None \<Rightarrow> 0 | Some c \<Rightarrow> c);
          label = champ_label (db w) ch
      in log_removed e new_locks cids
           (emit (Log_lock_removed cid label (int (fcard (fmdom new_locks)))
                    (players_visible (state w))) w))"

definition added_cells :: "lock_map \<Rightarrow> lock_map \<Rightarrow> int list" where
  "added_cells prev new_locks = sorted_list_of_fset (fmdom new_locks |-| fmdom prev)"

definition removed_cells :: "lock_map \<Rightarrow> lock_map \<Rightarrow> int list" where
  "removed_cells prev new_locks = sorted_list_of_fset (fmdom prev |-| fmdom new_locks)"

definition update_all_locked :: "thread \<Rightarrow> thread" where
  "update_all_locked w =
     (let total = players_visible (state w);
          locked = locked_count (state w);
          w1 = (if total > 0 \<and> locked \<ge> total \<and> \<not> all_locked_announced (state w) then
                  (emit (Log_all_locked locked total) w)
                    \<lparr>state := (state w)\<lparr>all_locked_announced := True\<rparr>\<rparr>
                else w)
      in if locked < total then w1\<lparr>state := (state w1)\<lparr>all_locked_announced := False\<rparr>\<rparr>
         else w1)"

definition handle_session :: "env \<Rightarrow> session \<Rightarrow> thread \<Rightarrow> exn option \<times> thread" where
  "handle_session e sess w =
     (let w1 = w\<lparr>state := (state w)\<lparr>local_cell_id :=
                   (case localPlayerCellId sess of
                      None \<Rightarrow> local_cell_id (state w)
                    | Some v \<Rightarrow> v)\<rparr>\<rparr>;
          w2 = update_players sess w1;
          new_locks = compute_locked e sess;
          added = added_cells (locks_by_cell (state w2)) new_locks;
          removed = removed_cells (locks_by_cell (state w2)) new_locks
      in case log_added e new_locks added w2 of
           (Some x, w3) \<Rightarrow> (Some x, w3)
         | (None, w3) \<Rightarrow>
             (let w4 = log_removed e new_locks removed w3;
                  w5 = w4\<lparr>state := (state w4)\<lparr>locks_by_cell := new_locks\<rparr>\<rparr>;
                  w6 = update_all_locked w5
              in (None, maybe_start_timer e sess w6)))"

subsection \<open>Routing by \<open>uri\<close>\<close>

text \<open>
  \<open>sess = payload.get("data") or {}\<close>: a falsy value is the empty dict; a non-empty string
  or a non-zero integer has no \<open>get\<close>, and the first statement raises AttributeError.
\<close>

definition handle_api_event :: "env \<Rightarrow> payload \<Rightarrow> thread \<Rightarrow> exn option \<times> thread" where
  "handle_api_event e p w =
     (case uri p of
        None \<Rightarrow> (None, w)
      | Some u \<Rightarrow>
          if u = [] then (None, w)
          else if u = ''/lol-gameflow/v1/gameflow-phase'' then (None, handle_phase (data p) w)
          else if u = ''/lol-champ-select/v1/hovered-champion-id'' then
            (None, handle_hover e (data p) w)
          else if u = ''/lol-champ-select/v1/session'' then
            (case data p of
               JNull \<Rightarrow> handle_session e empty_session w
             | JStr s \<Rightarrow>
                 if s = [] then handle_session e empty_session w else (Some AttributeError, w)
             | JInt n \<Rightarrow>
                 if n = 0 then handle_session e empty_session w else (Some AttributeError, w)
             | JSession sess \<Rightarrow> handle_session e sess w)
          else (None, w))"

text \<open>
  \<open>_on_message\<close> calls the handler inside \<open>try ... except Exception: pass\<close>: whatever the
  handler raised, the thread goes on with the state as the handler left it.
\<close>

definition deliver :: "env \<Rightarrow> payload \<Rightarrow> thread \<Rightarrow> thread" where
  "deliver e p w = snd (handle_api_event e p w)"

definition session_update :: "env \<Rightarrow> session \<Rightarrow> thread \<Rightarrow> thread" where
  "session_update e sess w = snd (handle_session e sess w)"

section \<open>Reading a trace\<close>

definition acquired_slots :: "event list \<Rightarrow> int list" where
  "acquired_slots evs = concat (map (\<lambda>ev. case ev of Log_lock_added cid _ _ _ \<Rightarrow> [cid] | _ \<Rightarrow> []) evs)"

definition released_slots :: "event list \<Rightarrow> int list" where
  "released_slots evs = concat (map (\<lambda>ev. case ev of Log_lock_removed cid _ _ _ \<Rightarrow> [cid] | _ \<Rightarrow> []) evs)"

definition all_locked_events :: "event list \<Rightarrow> event list" where
  "all_locked_events evs = filter (\<lambda>ev. case ev of Log_all_locked _ _ \<Rightarrow> True | _ \<Rightarrow> False) evs"

definition armings :: "event list \<Rightarrow> event list" where
  "armings evs = filter (\<lambda>ev. case ev of Log_loadout_start _ _ _ _ \<Rightarrow> True | _ \<Rightarrow> False) evs"

definition new_events :: "thread \<Rightarrow> thread \<Rightarrow> event list" where
  "new_events w w' = drop (length (trace w)) (trace w')"

definition fires :: "shared_state \<Rightarrow> bool" where
  "fires s = (players_visible s > 0 \<and> locked_count s \<ge> players_visible s \<and> \<not> all_locked_announced s)"

definition polled :: "env \<Rightarrow> nat \<Rightarrow> int" where
  "polled e k = left_ms_of (timer_of (case lcu_session e k of None \<Rightarrow> empty_session | Some s \<Rightarrow> s))"

definition seq_val :: "shared_state \<Rightarrow> int" where
  "seq_val s = (case ticker_seq s of None \<Rightarrow> 0 | Some n \<Rightarrow> n)"

definition poll_events :: "nat \<Rightarrow> event list" where
  "poll_events k = concat (replicate k [Lcu_session_call, Sleep_60ms])"

definition armed_state :: "env \<Rightarrow> int \<Rightarrow> thread \<Rightarrow> shared_state" where
  "armed_state e l w =
     (state w)\<lparr>loadout_left0_ms := l, loadout_t0 := monotonic e (n_monotonic w),
               ticker_seq := Some (seq_val (state w) + 1), current_ticker := seq_val (state w) + 1,
               loadout_countdown_active := True\<rparr>"

definition derived :: "env \<Rightarrow> session \<Rightarrow> shared_state \<Rightarrow> int option \<Rightarrow> shared_state" where
  "derived e sess s x =
     (let n = int (card (visible_cells sess));
          pv = (if n \<noteq> players_visible s \<and> n > 0 then n else players_visible s);
          lockedN = int (fcard (fmdom (compute_locked e sess)))
      in s\<lparr>local_cell_id := (case localPlayerCellId sess of None \<Rightarrow> local_cell_id s | Some v \<Rightarrow> v),
            players_visible := pv,
            locked_champ_id := x,
            locks_by_cell := compute_locked e sess,
            all_locked_announced :=
              (if lockedN < pv then False else if pv > 0 then True else all_locked_announced s)\<rparr>)"

definition idle_state :: shared_state where
  "idle_state =
     \<lparr>phase = None, hovered_champ_id = None, locked_champ_id = None, local_cell_id = None,
      players_visible = 0, locks_by_cell = fmempty, all_locked_announced = False,
      loadout_countdown_active = False, loadout_left0_ms = 0, loadout_t0 = 0,
      ticker_seq = Some 0, current_ticker = 0, last_hovered_skin_key = None,
      last_hovered_skin_id = None, last_hovered_skin_slug = None, last_hover_written = False,
      processed_action_ids = {}\<rparr>"

definition empty_db :: name_db where
  "empty_db =
     \<lparr>ver = None, langs = [], canonical_lang = None, slug_by_id = Map.empty,
      champ_name_by_id_by_lang = [], champ_name_by_id = Map.empty, entries_by_champ = Map.empty,
      skin_name_by_id = Map.empty, skins_loaded = {}, global_entries = None\<rparr>"

definition idle_thread :: thread where
  "idle_thread =
     \<lparr>state = idle_state, db = empty_db, ticker = None, timer_hz = 1000, fallback_ms = 0,
      trace = [], n_session = 0, n_monotonic = 0, n_alive = 0\<rparr>"

definition quiet_env :: "(session \<Rightarrow> lock_map) \<Rightarrow> env" where
  "quiet_env f =
     \<lparr>lcu_session = (\<lambda>k. None), monotonic = (\<lambda>k. int k), ticker_is_alive = (\<lambda>k. False),
      py_int = (\<lambda>s. None), compute_locked = f\<rparr>"

definition phase_event :: "data \<Rightarrow> payload" where
  "phase_event d = \<lparr>uri = Some ''/lol-gameflow/v1/gameflow-phase'', data = d\<rparr>"

definition busy_state :: shared_state where
  "busy_state =
     idle_state\<lparr>phase := Some ''ChampSelect'', hovered_champ_id := Some 7, players_visible := 2,
                locks_by_cell := fmap_of_list [(0, 11), (1, 22)], all_locked_announced := True,
                loadout_countdown_active := True, ticker_seq := Some 4, current_ticker := 4,
                last_hovered_skin_key := Some ''k'', last_hover_written := True,
                processed_action_ids := {3}\<rparr>"

definition run_sessions :: "env \<Rightarrow> session list \<Rightarrow> thread \<Rightarrow> thread" where
  "run_sessions e ss w = fold (session_update e) ss w"

fun streak :: "env \<Rightarrow> session list \<Rightarrow> thread \<Rightarrow> bool" where
  "streak e [] w = True"
| "streak e (s # ss) w =
     (players_visible (state (session_update e s w)) \<le> locked_count (state (session_update e s w))
      \<and> streak e ss (session_update e s w))"

definition example_locks :: "session \<Rightarrow> lock_map" where
  "example_locks sess =
     fmap_of_list (concat (map (\<lambda>rnd. concat (map (\<lambda>a. case actorCellId a of None \<Rightarrow> [] | Some c \<Rightarrow> [(c, 100 + c)]) (or_empty rnd)))
        (or_empty (actions sess))))"

definition three_players :: "nat \<Rightarrow> session" where
  "three_players n =
     \<lparr>localPlayerCellId = None,
      myTeam = Some [\<lparr>cellId = Some 0\<rparr>, \<lparr>cellId = Some 1\<rparr>, \<lparr>cellId = Some 2\<rparr>],
      theirTeam = None,
      actions = Some [Some (map (\<lambda>c. \<lparr>actorCellId = Some (int c)\<rparr>) [0..<n])],
      timer = None\<rparr>"

definition run_events :: "env \<Rightarrow> payload list \<Rightarrow> thread \<Rightarrow> thread" where
  "run_events e ps w = fold (deliver e) ps w"

definition timed_session :: "string \<Rightarrow> int \<Rightarrow> session" where
  "timed_session p l =
     empty_session\<lparr>timer := Some \<lparr>t_phase = Some p, adjustedTimeLeftInPhase = Some l\<rparr>\<rparr>"

definition one_locked :: thread where
  "one_locked = idle_thread\<lparr>state := idle_state\<lparr>players_visible := 1, locks_by_cell := fmap_of_list [(0, 11)]\<rparr>\<rparr>"

definition answering_env :: "nat \<Rightarrow> session \<Rightarrow> env" where
  "answering_env n s =
     (quiet_env (\<lambda>s. fmempty))\<lparr>lcu_session := (\<lambda>k. if k < n then None else Some s)\<rparr>"

definition url_of :: "lcu \<Rightarrow> string \<Rightarrow> string" where
  "url_of c path = (case base c of None \<Rightarrow> [] | Some b \<Rightarrow> b) @ path"

definition fresh_run :: "string option \<Rightarrow> run" where
  "fresh_run explicit =
     \<lparr>conn = \<lparr>ok = False, port = None, pw = None, base = None, http = None,
              explicit_lockfile = explicit, lf_path = None, lf_mtime = 0\<rparr>,
      tick = 0, calls = []\<rparr>"

definition new_lcu :: "'a machine \<Rightarrow> string option \<Rightarrow> run" where
  "new_lcu m explicit = init_from_lockfile m (fresh_run explicit)"

definition dead_client :: "unit machine" where
  "dead_client =
     \<lparr>discover = (\<lambda>t explicit. Some ''lockfile''),
      isfile = (\<lambda>t p. True),
      getmtime = (\<lambda>t p. Some 1),
      read_text = (\<lambda>t p. Some ''lol:1:7:pw:https''),
      time_now = (\<lambda>t. 0),
      int_of_str = (\<lambda>s. if s = ''7'' then Some 7 else None),
      http_get = (\<lambda>t u s timeout. Raises RequestException)\<rparr>"

definition vanishing_client :: "unit machine" where
  "vanishing_client = dead_client\<lparr>discover := (\<lambda>t explicit. if t < 5 then Some ''lockfile'' else None)\<rparr>"

definition crashing_client :: "unit machine" where
  "crashing_client = dead_client\<lparr>http_get := (\<lambda>t u s timeout. Raises ValueError)\<rparr>"

definition ready :: lcu where
  "ready =
     \<lparr>ok = True, port = Some 7, pw = Some ''pw'', base = Some ''https://127.0.0.1:7'',
      http = Some \<lparr>verify = False, auth = Some (''riot'', ''pw''),
                    content_type = Some ''application/json''\<rparr>,
      explicit_lockfile = None, lf_path = Some ''lockfile'', lf_mtime = 1\<rparr>"


definition ahri_db :: name_db where
  "ahri_db =
     \<lparr>ver = Some ''1'', langs = [''en''], canonical_lang = Some ''en'',
      slug_by_id = [103 \<mapsto> ''Ahri''],
      champ_name_by_id_by_lang = [(''en'', [(103, ''Ahri'')])],
      champ_name_by_id = [103 \<mapsto> ''Ahri''],
      entries_by_champ =
        [''Ahri'' \<mapsto> [\<lparr>key = ''Ahri'', kind = ''champion'', champ_slug = ''Ahri'', champ_id = 103,
                          skin_id = None\<rparr>]],
      skin_name_by_id = Map.empty, skins_loaded = {}, global_entries = None\<rparr>"

definition offline :: dd where
  "offline =
     \<lparr>files = Map.empty, net = (\<lambda>k url. Inl RequestException), can_write = (\<lambda>name. True),
      n_fetch = 0\<rparr>"

section \<open>What a lookup is compared with\<close>











text \<open>
  The list that a lookup returned, and the cache directory after it. The examples: a champion
  file with a default skin, a skin without id and the skin \<open>Dynasty Ahri\<close>; a machine whose
  cache holds that file while the network is down; one whose cache holds the files of the
  index but not that file, with the network down; and one with an empty cache whose network
  serves the file.
\<close>

definition found :: "exn + entry list \<times> name_db \<times> dd \<Rightarrow> entry list option" where
  "found r = (case r of Inl x \<Rightarrow> None | Inr (es, d1, d2) \<Rightarrow> Some es)"







definition ahri_entry :: entry where
  "ahri_entry = \<lparr>key = ''Ahri'', kind = ''champion'', champ_slug = ''Ahri'', champ_id = 103, skin_id = None\<rparr>"


section \<open>The visible slots of a payload\<close>

text \<open>
  The set of visible slots as the specification describes it, written from the payload alone:
  the slot ids of the players of both rosters, and when there is none, the actor slot ids of
  the rounds of the action list. A missing or \<open>null\<close> roster, action list or round has no
  slot. The two example payloads: rosters that share a slot and hold a player without slot
  id, and a payload whose rosters give no slot.
\<close>

definition team_slots :: "player list option \<Rightarrow> int set" where
  "team_slots team = (case team of None \<Rightarrow> {} | Some ps \<Rightarrow> {c. Some c \<in> cellId ` set ps})"

definition roster_slots :: "session \<Rightarrow> int set" where
  "roster_slots sess = team_slots (myTeam sess) \<union> team_slots (theirTeam sess)"

definition round_slots :: "action list option \<Rightarrow> int set" where
  "round_slots rnd = (case rnd of None \<Rightarrow> {} | Some acts \<Rightarrow> {c. Some c \<in> actorCellId ` set acts})"

definition actor_slots :: "session \<Rightarrow> int set" where
  "actor_slots sess =
     (case actions sess of None \<Rightarrow> {} | Some rnds \<Rightarrow> \<Union> (round_slots ` set rnds))"

definition visible_slots :: "session \<Rightarrow> int set" where
  "visible_slots sess = (if roster_slots sess = {} then actor_slots sess else roster_slots sess)"

definition two_rosters :: session where
  "two_rosters =
     \<lparr>localPlayerCellId = None,
      myTeam = Some [\<lparr>cellId = Some 0\<rparr>, \<lparr>cellId = Some 1\<rparr>, \<lparr>cellId = None\<rparr>],
      theirTeam = Some [\<lparr>cellId = Some 1\<rparr>, \<lparr>cellId = Some 5\<rparr>],
      actions = Some [Some [\<lparr>actorCellId = Some 9\<rparr>]],
      timer = None\<rparr>"

definition actions_only :: session where
  "actions_only =
     \<lparr>localPlayerCellId = None,
      myTeam = None,
      theirTeam = Some [\<lparr>cellId = None\<rparr>],
      actions = Some [Some [\<lparr>actorCellId = Some 4\<rparr>, \<lparr>actorCellId = Some 7\<rparr>], None,
                      Some [\<lparr>actorCellId = None\<rparr>, \<lparr>actorCellId = Some 4\<rparr>]],
      timer = None\<rparr>"

section \<open>Two threads at the timer lock\<close>

text \<open>
  The block \<open>with self.state.timer_lock:\<close> of \<open>_maybe_start_timer\<close>, statement by statement,
  for the case that another thread runs the same block on the same shared state. A program
  counter names the statement a thread executes next: taking the lock, the test of
  \<open>loadout_countdown_active\<close>, the five assignments, the log line, the start of a ticker, and
  leaving the block, which releases the lock.
\<close>

datatype pc =
    At_acquire | At_check | At_left0 | At_t0 | At_seq | At_current | At_active | At_log
  | At_ticker | At_release | Done

text \<open>
  One statement, on the thread record; its field \<open>state\<close> is the shared state as the statement
  finds it. Each statement is one step: what a statement reads and writes is not interleaved
  with the other thread. \<open>current_ticker = ticker_seq\<close> reads the field that the statement
  before it wrote, which holds a number by then; the log line and the ticker read
  \<open>current_ticker\<close>.
\<close>

definition lock_step :: "env \<Rightarrow> string \<Rightarrow> int \<Rightarrow> pc \<times> thread \<Rightarrow> pc \<times> thread" where
  "lock_step e phase_timer left_ms c =
     (case c of (p, w) \<Rightarrow>
        case p of
          At_acquire \<Rightarrow> (At_check, emit Timer_lock_acquire w)
        | At_check \<Rightarrow> (if \<not> loadout_countdown_active (state w) then At_left0 else At_release, w)
        | At_left0 \<Rightarrow> (At_t0, w\<lparr>state := (state w)\<lparr>loadout_left0_ms := left_ms\<rparr>\<rparr>)
        | At_t0 \<Rightarrow>
            (At_seq, w\<lparr>state := (state w)\<lparr>loadout_t0 := monotonic e (n_monotonic w)\<rparr>,
                       n_monotonic := Suc (n_monotonic w)\<rparr>)
        | At_seq \<Rightarrow>
            (At_current,
             w\<lparr>state := (state w)\<lparr>ticker_seq :=
                  Some ((case ticker_seq (state w) of None \<Rightarrow> 0 | Some n \<Rightarrow> n) + 1)\<rparr>\<rparr>)
        | At_current \<Rightarrow>
            (At_active,
             w\<lparr>state := (state w)\<lparr>current_ticker :=
                  (case ticker_seq (state w) of None \<Rightarrow> 0 | Some n \<Rightarrow> n)\<rparr>\<rparr>)
        | At_active \<Rightarrow> (At_log, w\<lparr>state := (state w)\<lparr>loadout_countdown_active := True\<rparr>\<rparr>)
        | At_log \<Rightarrow>
            (At_ticker,
             emit (Log_loadout_start (current_ticker (state w)) (mode_of phase_timer left_ms)
                     left_ms (timer_hz w)) w)
        | At_ticker \<Rightarrow> (At_release, start_ticker e (mode_of phase_timer left_ms) w)
        | At_release \<Rightarrow> (Done, emit Timer_lock_release w)
        | Done \<Rightarrow> (Done, w))"

text \<open>
  Two callers of the block share the state and the lock; each has its own thread record, in
  which the field \<open>state\<close> keeps the shared state as the caller's last statement left it, and
  its own arguments \<open>phase_timer\<close> and \<open>left_ms\<close>. The lock is a \<open>threading.Lock\<close>: it has at
  most one owner, and \<open>acquire\<close> blocks while it has one.
\<close>

datatype caller = Caller_a | Caller_b

record system =
  shared :: shared_state
  owner :: "caller option"
  pc_of :: "caller \<Rightarrow> pc"
  locals :: "caller \<Rightarrow> thread"

text \<open>
  A step of the system is one statement of the caller that the scheduler picks. A caller that
  waits for the lock, or has left the block, does nothing.
\<close>

definition sys_step :: "env \<Rightarrow> (caller \<Rightarrow> string \<times> int) \<Rightarrow> caller \<Rightarrow> system \<Rightarrow> system" where
  "sys_step e args i c =
     (if pc_of c i = Done \<or> (pc_of c i = At_acquire \<and> owner c \<noteq> None) then c
      else
        (case lock_step e (fst (args i)) (snd (args i)) (pc_of c i, (locals c i)\<lparr>state := shared c\<rparr>) of
           (p, w) \<Rightarrow>
             \<lparr>shared = state w,
              owner = (if pc_of c i = At_acquire then Some i
                       else if pc_of c i = At_release then None else owner c),
              pc_of = (pc_of c)(i := p),
              locals = (locals c)(i := w)\<rparr>))"

definition run_system :: "env \<Rightarrow> (caller \<Rightarrow> string \<times> int) \<Rightarrow> caller list \<Rightarrow> system \<Rightarrow> system" where
  "run_system e args sched c = fold (sys_step e args) sched c"

definition start :: "shared_state \<Rightarrow> (caller \<Rightarrow> thread) \<Rightarrow> system" where
  "start s ws = \<lparr>shared = s, owner = None, pc_of = (\<lambda>i. At_acquire), locals = ws\<rparr>"

text \<open>
  The same two callers without the lock: \<open>acquire\<close> never blocks.
\<close>

definition racy_step :: "env \<Rightarrow> (caller \<Rightarrow> string \<times> int) \<Rightarrow> caller \<Rightarrow> system \<Rightarrow> system" where
  "racy_step e args i c =
     (if pc_of c i = Done then c
      else
        (case lock_step e (fst (args i)) (snd (args i)) (pc_of c i, (locals c i)\<lparr>state := shared c\<rparr>) of
           (p, w) \<Rightarrow>
             \<lparr>shared = state w, owner = None, pc_of = (pc_of c)(i := p),
              locals = (locals c)(i := w)\<rparr>))"

text \<open>
  What the two callers give one after the other: \<open>i\<close> runs \<open>arm\<close> on the shared state, then
  the other one runs it on the state that \<open>i\<close> left.
\<close>

definition other :: "caller \<Rightarrow> caller" where
  "other i = (case i of Caller_a \<Rightarrow> Caller_b | Caller_b \<Rightarrow> Caller_a)"

definition arm_of :: "env \<Rightarrow> (caller \<Rightarrow> string \<times> int) \<Rightarrow> caller \<Rightarrow> thread \<Rightarrow> thread" where
  "arm_of e args i w = arm e (fst (args i)) (snd (args i)) w"

definition serial ::
  "env \<Rightarrow> (caller \<Rightarrow> string \<times> int) \<Rightarrow> caller \<Rightarrow> shared_state \<Rightarrow> (caller \<Rightarrow> thread) \<Rightarrow> system" where
  "serial e args i s ws =
     (let w1 = arm_of e args i ((ws i)\<lparr>state := s\<rparr>);
          w2 = arm_of e args (other i) ((ws (other i))\<lparr>state := state w1\<rparr>)
      in \<lparr>shared = state w2, owner = None, pc_of = (\<lambda>k. Done),
          locals = (\<lambda>k. if k = i then w1 else w2)\<rparr>)"

text \<open>
  A caller is in the block when it has taken the lock and not yet released it: at the test of
  the flag, at an assignment, at the log line, at the ticker or at the release.
\<close>

definition in_block :: "pc \<Rightarrow> bool" where
  "in_block p = (p \<noteq> At_acquire \<and> p \<noteq> Done)"

text \<open>
  The configurations that two callers can reach from \<open>start s ws\<close>. A caller is \<open>running\<close>
  when it owns the lock, has made some steps of the block from the shared state \<open>w0\<close> it
  found, and the shared state is what its last step left; it is \<open>waiting\<close> before its first
  step; it has \<open>left_block\<close> when it is done with what \<open>arm\<close> gives. Either nothing has
  happened, or one caller runs while the other waits, or one has left and the other waits or
  runs on the state the first one left, or both have left.
\<close>

definition running :: "env \<Rightarrow> (caller \<Rightarrow> string \<times> int) \<Rightarrow> caller \<Rightarrow> thread \<Rightarrow> system \<Rightarrow> bool" where
  "running e args i w0 c =
     (\<exists>k. (pc_of c i, locals c i) = (lock_step e (fst (args i)) (snd (args i)) ^^ Suc k) (At_acquire, w0)
         \<and> pc_of c i \<noteq> Done \<and> shared c = state (locals c i) \<and> owner c = Some i)"

definition waiting :: "(caller \<Rightarrow> thread) \<Rightarrow> caller \<Rightarrow> system \<Rightarrow> bool" where
  "waiting ws i c = (pc_of c i = At_acquire \<and> locals c i = ws i)"

definition left_block :: "env \<Rightarrow> (caller \<Rightarrow> string \<times> int) \<Rightarrow> caller \<Rightarrow> thread \<Rightarrow> system \<Rightarrow> bool" where
  "left_block e args i w0 c = (pc_of c i = Done \<and> locals c i = arm_of e args i w0)"

definition reachable ::
  "env \<Rightarrow> (caller \<Rightarrow> string \<times> int) \<Rightarrow> shared_state \<Rightarrow> (caller \<Rightarrow> thread) \<Rightarrow> system \<Rightarrow> bool" where
  "reachable e args s ws c =
     (c = start s ws
      \<or> (\<exists>i. running e args i ((ws i)\<lparr>state := s\<rparr>) c \<and> waiting ws (other i) c)
      \<or> (\<exists>i. left_block e args i ((ws i)\<lparr>state := s\<rparr>) c \<and> owner c = None
             \<and> shared c = state (locals c i) \<and> waiting ws (other i) c)
      \<or> (\<exists>i. left_block e args i ((ws i)\<lparr>state := s\<rparr>) c
             \<and> running e args (other i) ((ws (other i))\<lparr>state := state (locals c i)\<rparr>) c)
      \<or> (\<exists>i. c = serial e args i s ws))"

text \<open>
  The number of statements a caller has before it, at most, and a schedule that lets both
  callers finish from any reachable configuration.
\<close>

fun steps_left :: "pc \<Rightarrow> nat" where
  "steps_left At_acquire = 10"
| "steps_left At_check = 9"
| "steps_left At_left0 = 8"
| "steps_left At_t0 = 7"
| "steps_left At_seq = 6"
| "steps_left At_current = 5"
| "steps_left At_active = 4"
| "steps_left At_log = 3"
| "steps_left At_ticker = 2"
| "steps_left At_release = 1"
| "steps_left Done = 0"

definition drain :: "caller list" where
  "drain = replicate 10 Caller_a @ replicate 10 Caller_b @ replicate 10 Caller_a"

text \<open>
  The start lines a caller printed, the identifiers that the start lines of a trace print, and
  the system of two callers after a schedule. The examples: two callers with different
  arguments on idle threads, a schedule in which they take turns, one in which the second
  caller takes the lock first, and a run of events with a phase exit between two
  finalization payloads.
\<close>

definition started :: "(caller \<Rightarrow> thread) \<Rightarrow> system \<Rightarrow> caller \<Rightarrow> event list" where
  "started ws c i = armings (new_events (ws i) (locals c i))"

definition two_idle :: "caller \<Rightarrow> thread" where
  "two_idle i = idle_thread"

definition two_args :: "caller \<Rightarrow> string \<times> int" where
  "two_args i = (case i of Caller_a \<Rightarrow> (''FINALIZATION'', 5000) | Caller_b \<Rightarrow> (''BAN_PICK'', 300))"

definition in_turn :: "caller list" where
  "in_turn = concat (replicate 10 [Caller_a, Caller_b])"

definition arming_ids :: "event list \<Rightarrow> int list" where
  "arming_ids evs = concat (map (\<lambda>ev. case ev of Log_loadout_start i _ _ _ \<Rightarrow> [i] | _ \<Rightarrow> []) evs)"

definition two_callers ::
  "env \<Rightarrow> (caller \<Rightarrow> string \<times> int) \<Rightarrow> shared_state \<Rightarrow> (caller \<Rightarrow> thread) \<Rightarrow> caller list \<Rightarrow> system" where
  "two_callers e args s ws sched = run_system e args sched (start s ws)"

definition session_event :: "session \<Rightarrow> payload" where
  "session_event sess = \<lparr>uri = Some ''/lol-champ-select/v1/session'', data = JSession sess\<rparr>"

definition b_first :: "caller list" where
  "b_first = [Caller_b, Caller_a, Caller_b, Caller_a, Caller_a]"

definition two_epochs :: "payload list" where
  "two_epochs =
     [session_event (timed_session ''FINALIZATION'' 5000), phase_event (JStr ''Lobby''),
      session_event (timed_session ''FINALIZATION'' 4000)]"

section \<open>What each step of a session update does\<close>

lemma emit_simps [simp]:
  "state (emit ev w) = state w"
  "trace (emit ev w) = trace w @ [ev]"
  "ticker (emit ev w) = ticker w"
  "timer_hz (emit ev w) = timer_hz w"
  "fallback_ms (emit ev w) = fallback_ms w"
  "n_session (emit ev w) = n_session w"
  "n_monotonic (emit ev w) = n_monotonic w"
  "n_alive (emit ev w) = n_alive w"
  by (simp_all add: emit_def)

lemma proj_append [simp]:
  "acquired_slots (xs @ ys) = acquired_slots xs @ acquired_slots ys"
  "released_slots (xs @ ys) = released_slots xs @ released_slots ys"
  "all_locked_events (xs @ ys) = all_locked_events xs @ all_locked_events ys"
  "armings (xs @ ys) = armings xs @ armings ys"
  by (simp_all add: acquired_slots_def released_slots_def all_locked_events_def armings_def)

lemma proj_Nil [simp]:
  "acquired_slots [] = []" "released_slots [] = []" "all_locked_events [] = []" "armings [] = []"
  by (simp_all add: acquired_slots_def released_slots_def all_locked_events_def armings_def)

lemma proj_Cons [simp]:
  "acquired_slots (ev # evs) = (case ev of Log_lock_added cid _ _ _ \<Rightarrow> [cid] | _ \<Rightarrow> []) @ acquired_slots evs"
  "released_slots (ev # evs) = (case ev of Log_lock_removed cid _ _ _ \<Rightarrow> [cid] | _ \<Rightarrow> []) @ released_slots evs"
  "all_locked_events (ev # evs) = (case ev of Log_all_locked _ _ \<Rightarrow> [ev] | _ \<Rightarrow> []) @ all_locked_events evs"
  "armings (ev # evs) = (case ev of Log_loadout_start _ _ _ _ \<Rightarrow> [ev] | _ \<Rightarrow> []) @ armings evs"
  by (simp_all add: acquired_slots_def released_slots_def all_locked_events_def armings_def split: event.splits)

lemma new_events_append: "trace w' = trace w @ evs \<Longrightarrow> new_events w w' = evs"
  by (simp add: new_events_def)

lemma log_added_effect:
  "set cids \<subseteq> fset (fmdom n) \<Longrightarrow>
   \<exists>x evs. log_added e n cids w =
       (None, w\<lparr>state := (state w)\<lparr>locked_champ_id := x\<rparr>, trace := trace w @ evs\<rparr>)
     \<and> acquired_slots evs = cids \<and> released_slots evs = []
     \<and> all_locked_events evs = [] \<and> armings evs = []"
proof (induction cids arbitrary: w)
  case Nil
  have "w = w\<lparr>state := (state w)\<lparr>locked_champ_id := locked_champ_id (state w)\<rparr>, trace := trace w @ []\<rparr>"
    by simp
  then show ?case by (metis log_added.simps(1) proj_Nil)
next
  case (Cons cid cids)
  then obtain ch where ch: "fmlookup n cid = Some ch"
    by (auto simp: fmdom.rep_eq dom_def) 
  define w2 where "w2 = (let label = champ_label (db w) ch;
               w1 = emit (Log_lock_added cid label (int (fcard (fmdom n)))
                            (players_visible (state w))) w in (case local_cell_id (state w1) of
                       None \<Rightarrow> w1
                     | Some l \<Rightarrow>
                         if cid = l then
                           (emit (Log_lock_champ label ch) w1)
                             \<lparr>state := (state w1)\<lparr>locked_champ_id := Some ch\<rparr>\<rparr>
                         else w1))"
  have step: "log_added e n (cid # cids) w = log_added e n cids w2"
    using ch by (simp add: w2_def Let_def)
  have w2: "\<exists>y ev2. w2 = w\<lparr>state := (state w)\<lparr>locked_champ_id := y\<rparr>, trace := trace w @ ev2\<rparr>
      \<and> acquired_slots ev2 = [cid] \<and> released_slots ev2 = [] \<and> all_locked_events ev2 = [] \<and> armings ev2 = []"
  proof (cases "local_cell_id (state w) = Some cid")
    case True
    then have "w2 = w\<lparr>state := (state w)\<lparr>locked_champ_id := Some ch\<rparr>, trace := trace w @ [Log_lock_added cid (champ_label (db w) ch) (int (fcard (fmdom n))) (players_visible (state w)), Log_lock_champ (champ_label (db w) ch) ch]\<rparr>"
      by (simp add: w2_def Let_def emit_def)
    then show ?thesis by (intro exI[of _ "Some ch"] exI[of _ "[Log_lock_added cid (champ_label (db w) ch) (int (fcard (fmdom n))) (players_visible (state w)), Log_lock_champ (champ_label (db w) ch) ch]"]) simp
  next
    case False
    then have "w2 = w\<lparr>state := (state w)\<lparr>locked_champ_id := locked_champ_id (state w)\<rparr>, trace := trace w @ [Log_lock_added cid (champ_label (db w) ch) (int (fcard (fmdom n))) (players_visible (state w))]\<rparr>"
      by (auto simp add: w2_def Let_def emit_def split: option.splits)
    then show ?thesis by (intro exI[of _ "locked_champ_id (state w)"] exI[of _ "[Log_lock_added cid (champ_label (db w) ch) (int (fcard (fmdom n))) (players_visible (state w))]"]) simp
  qed
  then obtain y ev2 where w2eq: "w2 = w\<lparr>state := (state w)\<lparr>locked_champ_id := y\<rparr>, trace := trace w @ ev2\<rparr>"
    and p2: "acquired_slots ev2 = [cid]" "released_slots ev2 = []" "all_locked_events ev2 = []" "armings ev2 = []"
    by blast
  from Cons.prems have "set cids \<subseteq> fset (fmdom n)" by simp
  from Cons.IH[OF this, of w2] obtain x evs where
    r: "log_added e n cids w2 = (None, w2\<lparr>state := (state w2)\<lparr>locked_champ_id := x\<rparr>, trace := trace w2 @ evs\<rparr>)"
    and p: "acquired_slots evs = cids" "released_slots evs = []" "all_locked_events evs = []" "armings evs = []"
    by blast
  have "w2\<lparr>state := (state w2)\<lparr>locked_champ_id := x\<rparr>, trace := trace w2 @ evs\<rparr>
      = w\<lparr>state := (state w)\<lparr>locked_champ_id := x\<rparr>, trace := trace w @ (ev2 @ evs)\<rparr>"
    by (simp add: w2eq)
  with step r p p2 show ?case
    by (intro exI[of _ x] exI[of _ "ev2 @ evs"]) simp
qed

lemma log_removed_effect:
  "locks_by_cell (state w) = P \<Longrightarrow> \<exists>evs. log_removed e n cids w = w\<lparr>trace := trace w @ evs\<rparr>
     \<and> acquired_slots evs = [] \<and> released_slots evs = cids
     \<and> all_locked_events evs = [] \<and> armings evs = []"
proof (induction cids arbitrary: w)
  case Nil
  show ?case by (intro exI[of _ "[]"]) simp
next
  case (Cons cid cids)
  define ev where "ev = Log_lock_removed cid (champ_label (db w) (case fmlookup (locks_by_cell (state w)) cid of None \<Rightarrow> 0 | Some c \<Rightarrow> c)) (int (fcard (fmdom n))) (players_visible (state w))"
  have step: "log_removed e n (cid # cids) w = log_removed e n cids (emit ev w)"
    by (simp add: ev_def Let_def)
  have "locks_by_cell (state (emit ev w)) = P" using Cons.prems by simp
  from Cons.IH[OF this] obtain evs where
    r: "log_removed e n cids (emit ev w) = (emit ev w)\<lparr>trace := trace (emit ev w) @ evs\<rparr>"
    and p: "acquired_slots evs = []" "released_slots evs = cids" "all_locked_events evs = []" "armings evs = []"
    by blast
  have "(emit ev w)\<lparr>trace := trace (emit ev w) @ evs\<rparr> = w\<lparr>trace := trace w @ (ev # evs)\<rparr>"
    by (simp add: emit_def)
  with step r p show ?case
    by (intro exI[of _ "ev # evs"]) (simp add: ev_def)
qed

lemma update_players_effect:
  "\<exists>evs. update_players sess w =
      w\<lparr>state := (state w)\<lparr>players_visible :=
             (if int (card (visible_cells sess)) \<noteq> players_visible (state w) \<and> int (card (visible_cells sess)) > 0
              then int (card (visible_cells sess)) else players_visible (state w))\<rparr>,
        trace := trace w @ evs\<rparr>
     \<and> acquired_slots evs = [] \<and> released_slots evs = []
     \<and> all_locked_events evs = [] \<and> armings evs = []"
proof (cases "int (card (visible_cells sess)) \<noteq> players_visible (state w) \<and> int (card (visible_cells sess)) > 0")
  case True
  then show ?thesis
    by (intro exI[of _ "[Log_players (int (card (visible_cells sess)))]"])
       (simp add: update_players_def Let_def emit_def)
next
  case False
  then show ?thesis
    by (intro exI[of _ "[]"]) (auto simp add: update_players_def Let_def)
qed

lemma update_all_locked_effect:
  "update_all_locked w =
     w\<lparr>state := (state w)\<lparr>all_locked_announced :=
            (if locked_count (state w) < players_visible (state w) then False
             else if players_visible (state w) > 0 then True
             else all_locked_announced (state w))\<rparr>,
       trace := trace w @ (if fires (state w)
                           then [Log_all_locked (locked_count (state w)) (players_visible (state w))] else [])\<rparr>"
  by (auto simp add: update_all_locked_def Let_def emit_def fires_def locked_count_def)

lemma poll_events_simps [simp]:
  "poll_events 0 = []"
  "poll_events (Suc k) = Lcu_session_call # Sleep_60ms # poll_events k"
  by (simp_all add: poll_events_def)

lemma poll_events_proj [simp]:
  "acquired_slots (poll_events k) = []" "released_slots (poll_events k) = []"
  "all_locked_events (poll_events k) = []" "armings (poll_events k) = []"
  by (induction k) simp_all

lemma probe_none:
  "(\<And>j. j < n \<Longrightarrow> polled e (n_session w + j) \<le> 0) \<Longrightarrow>
   probe e n l w =
     ((if n = 0 then l else polled e (n_session w + n - 1), False),
      w\<lparr>n_session := n_session w + n, trace := trace w @ poll_events n\<rparr>)"
proof (induction n arbitrary: l w)
  case 0
  show ?case by simp
next
  case (Suc n)
  define w2 where "w2 = emit Sleep_60ms (emit Lcu_session_call (w\<lparr>n_session := Suc (n_session w)\<rparr>))"
  from Suc.prems[of 0] have p0: "polled e (n_session w) \<le> 0" by simp
  then have step: "probe e (Suc n) l w = probe e n (polled e (n_session w)) w2"
    by (simp add: polled_def w2_def Let_def)
  have "\<And>j. j < n \<Longrightarrow> polled e (n_session w2 + j) \<le> 0"
    using Suc.prems[of "Suc _"] by (simp add: w2_def)
  from Suc.IH[OF this, of "polled e (n_session w)"]
  have "probe e n (polled e (n_session w)) w2 =
     ((if n = 0 then polled e (n_session w) else polled e (n_session w2 + n - 1), False),
      w2\<lparr>n_session := n_session w2 + n, trace := trace w2 @ poll_events n\<rparr>)" .
  moreover have "w2\<lparr>n_session := n_session w2 + n, trace := trace w2 @ poll_events n\<rparr>
     = w\<lparr>n_session := n_session w + Suc n, trace := trace w @ poll_events (Suc n)\<rparr>"
    by (simp add: w2_def emit_def)
  moreover have "(if n = 0 then polled e (n_session w) else polled e (n_session w2 + n - 1))
      = polled e (n_session w + Suc n - 1)"
    by (simp add: w2_def)
  ultimately show ?case using step by simp
qed

lemma probe_some:
  "k < n \<Longrightarrow> (\<And>j. j < k \<Longrightarrow> polled e (n_session w + j) \<le> 0) \<Longrightarrow> polled e (n_session w + k) > 0 \<Longrightarrow>
   probe e n l w =
     ((polled e (n_session w + k), True),
      w\<lparr>n_session := n_session w + Suc k, trace := trace w @ poll_events k @ [Lcu_session_call]\<rparr>)"
proof (induction n arbitrary: l w k)
  case 0
  then show ?case by simp
next
  case (Suc n)
  show ?case
  proof (cases k)
    case 0
    with Suc.prems show ?thesis by (simp add: polled_def Let_def emit_def)
  next
    case (Suc k')
    define w2 where "w2 = emit Sleep_60ms (emit Lcu_session_call (w\<lparr>n_session := Suc (n_session w)\<rparr>))"
    from Suc.prems(2)[of 0] Suc have p0: "polled e (n_session w) \<le> 0" by simp
    then have step: "probe e (Suc n) l w = probe e n (polled e (n_session w)) w2"
      by (simp add: polled_def w2_def Let_def)
    have a: "k' < n" using Suc Suc.prems(1) by simp
    have b: "\<And>j. j < k' \<Longrightarrow> polled e (n_session w2 + j) \<le> 0"
      using Suc.prems(2)[of "Suc _"] Suc by (simp add: w2_def)
    have c: "polled e (n_session w2 + k') > 0" using Suc.prems(3) Suc by (simp add: w2_def)
    from Suc.IH[OF a b c, of "polled e (n_session w)"]
    have "probe e n (polled e (n_session w)) w2 =
       ((polled e (n_session w2 + k'), True),
        w2\<lparr>n_session := n_session w2 + Suc k', trace := trace w2 @ poll_events k' @ [Lcu_session_call]\<rparr>)" by simp
    moreover have "w2\<lparr>n_session := n_session w2 + Suc k', trace := trace w2 @ poll_events k' @ [Lcu_session_call]\<rparr>
       = w\<lparr>n_session := n_session w + Suc k, trace := trace w @ poll_events k @ [Lcu_session_call]\<rparr>"
      by (simp add: w2_def emit_def Suc)
    moreover have "polled e (n_session w2 + k') = polled e (n_session w + k)"
      by (simp add: w2_def Suc)
    ultimately show ?thesis using step by simp
  qed
qed

lemma arm_active:
  "loadout_countdown_active (state w) \<Longrightarrow>
   arm e pt l w = w\<lparr>trace := trace w @ [Timer_lock_acquire, Timer_lock_release]\<rparr>"
  by (simp add: arm_def Let_def emit_def)

lemma arm_inactive:
  "\<not> loadout_countdown_active (state w) \<Longrightarrow>
   state (arm e pt l w) = armed_state e l w
   \<and> n_monotonic (arm e pt l w) = Suc (n_monotonic w)
   \<and> n_session (arm e pt l w) = n_session w
   \<and> (\<exists>tk. set tk \<subseteq> {Ticker_start (seq_val (state w) + 1) (mode_of pt l)} \<and>
        trace (arm e pt l w) = trace w @
          [Timer_lock_acquire, Log_loadout_start (seq_val (state w) + 1) (mode_of pt l) l (timer_hz w)]
          @ tk @ [Timer_lock_release])"
  by (auto simp add: arm_def Let_def start_ticker_def armed_state_def seq_val_def split: option.splits)

lemma poll_only_proj:
  "set pevs \<subseteq> {Lcu_session_call, Sleep_60ms} \<Longrightarrow>
   acquired_slots pevs = [] \<and> released_slots pevs = [] \<and> all_locked_events pevs = [] \<and> armings pevs = []"
  by (induction pevs) auto

lemma probe_shape:
  "\<exists>k pevs. k \<le> n \<and> set pevs \<subseteq> {Lcu_session_call, Sleep_60ms} \<and>
     snd (probe e n l w) = w\<lparr>n_session := n_session w + k, trace := trace w @ pevs\<rparr>"
proof (induction n arbitrary: l w)
  case 0
  show ?case by (intro exI[of _ 0] exI[of _ "[]"]) simp
next
  case (Suc n)
  show ?case
  proof (cases "polled e (n_session w) > 0")
    case True
    then show ?thesis
      by (intro exI[of _ 1] exI[of _ "[Lcu_session_call]"]) (simp add: polled_def Let_def emit_def)
  next
    case False
    define w2 where "w2 = emit Sleep_60ms (emit Lcu_session_call (w\<lparr>n_session := Suc (n_session w)\<rparr>))"
    from False have step: "probe e (Suc n) l w = probe e n (polled e (n_session w)) w2"
      by (simp add: polled_def w2_def Let_def)
    from Suc.IH[of "polled e (n_session w)" w2] obtain k pevs where
      k: "k \<le> n" and pe: "set pevs \<subseteq> {Lcu_session_call, Sleep_60ms}" and
      r: "snd (probe e n (polled e (n_session w)) w2) = w2\<lparr>n_session := n_session w2 + k, trace := trace w2 @ pevs\<rparr>"
      by blast
    have "w2\<lparr>n_session := n_session w2 + k, trace := trace w2 @ pevs\<rparr>
        = w\<lparr>n_session := n_session w + Suc k, trace := trace w @ (Lcu_session_call # Sleep_60ms # pevs)\<rparr>"
      by (simp add: w2_def emit_def)
    with step r k pe show ?thesis
      by (intro exI[of _ "Suc k"] exI[of _ "Lcu_session_call # Sleep_60ms # pevs"]) simp
  qed
qed

lemma maybe_start_timer_shape:
  "\<exists>k pevs. k \<le> 8 \<and> set pevs \<subseteq> {Lcu_session_call, Sleep_60ms} \<and>
     (maybe_start_timer e sess w = w\<lparr>n_session := n_session w + k, trace := trace w @ pevs\<rparr>
      \<or> (\<exists>l. maybe_start_timer e sess w =
             arm e (phase_timer_of (timer_of sess)) l
               (w\<lparr>n_session := n_session w + k, trace := trace w @ pevs\<rparr>)))"
proof -
  have w0: "w = w\<lparr>n_session := n_session w + 0, trace := trace w @ []\<rparr>" by simp
  let ?pt = "phase_timer_of (timer_of sess)" and ?l = "left_ms_of (timer_of sess)"
  consider (fin) "?pt = ''FINALIZATION'' \<and> ?l > 0"
    | (locked_pos) "\<not> (?pt = ''FINALIZATION'' \<and> ?l > 0)"
        "players_visible (state w) > 0 \<and> locked_count (state w) \<ge> players_visible (state w)" "?l > 0"
    | (locked_probe) "\<not> (?pt = ''FINALIZATION'' \<and> ?l > 0)"
        "players_visible (state w) > 0 \<and> locked_count (state w) \<ge> players_visible (state w)" "?l \<le> 0"
    | (none) "\<not> (?pt = ''FINALIZATION'' \<and> ?l > 0)"
        "\<not> (players_visible (state w) > 0 \<and> locked_count (state w) \<ge> players_visible (state w))"
    by linarith
  then show ?thesis
  proof cases
    case fin
    then have "maybe_start_timer e sess w = arm e ?pt ?l w"
      by (simp add: maybe_start_timer_def Let_def)
    with w0 show ?thesis
      by (intro exI[of _ 0] exI[of _ "[]"]) auto
  next
    case locked_pos
    then have "maybe_start_timer e sess w = arm e ?pt ?l w"
      by (simp add: maybe_start_timer_def Let_def)
    with w0 show ?thesis
      by (intro exI[of _ 0] exI[of _ "[]"]) auto
  next
    case locked_probe
    obtain k pevs where k: "k \<le> 8" and pe: "set pevs \<subseteq> {Lcu_session_call, Sleep_60ms}" and
      r: "snd (probe e 8 ?l w) = w\<lparr>n_session := n_session w + k, trace := trace w @ pevs\<rparr>"
      using probe_shape[of 8 e ?l w] by blast
    obtain l2 pu w1 where pr: "probe e 8 ?l w = ((l2, pu), w1)"
      by (metis prod.exhaust)
    with r have w1: "w1 = w\<lparr>n_session := n_session w + k, trace := trace w @ pevs\<rparr>" by simp
    from locked_probe pr have "maybe_start_timer e sess w = (if l2 > 0 then arm e ?pt l2 w1 else w1)"
      by (simp add: maybe_start_timer_def Let_def)
    with w1 k pe show ?thesis
      by (intro exI[of _ k] exI[of _ pevs]) auto
  next
    case none
    then have "maybe_start_timer e sess w = w"
      by (auto simp add: maybe_start_timer_def Let_def)
    with w0 show ?thesis
      by (intro exI[of _ 0] exI[of _ "[]"]) auto
  qed
qed

lemma maybe_start_timer_effect:
  "\<exists>evs. trace (maybe_start_timer e sess w) = trace w @ evs
     \<and> acquired_slots evs = [] \<and> released_slots evs = [] \<and> all_locked_events evs = []
     \<and> (armings evs = [] \<and> state (maybe_start_timer e sess w) = state w
        \<or> (\<exists>ev l. armings evs = [ev] \<and> \<not> loadout_countdown_active (state w)
              \<and> state (maybe_start_timer e sess w) = armed_state e l w))"
proof -
  obtain k pevs where pe: "set pevs \<subseteq> {Lcu_session_call, Sleep_60ms}" and
    r: "maybe_start_timer e sess w = w\<lparr>n_session := n_session w + k, trace := trace w @ pevs\<rparr>
      \<or> (\<exists>l. maybe_start_timer e sess w =
             arm e (phase_timer_of (timer_of sess)) l
               (w\<lparr>n_session := n_session w + k, trace := trace w @ pevs\<rparr>))"
    using maybe_start_timer_shape[of e sess w] by blast
  let ?w1 = "w\<lparr>n_session := n_session w + k, trace := trace w @ pevs\<rparr>"
  note pp = poll_only_proj[OF pe]
  from r show ?thesis
  proof
    assume "maybe_start_timer e sess w = ?w1"
    with pp show ?thesis by (intro exI[of _ pevs]) simp
  next
    assume "\<exists>l. maybe_start_timer e sess w = arm e (phase_timer_of (timer_of sess)) l ?w1"
    then obtain l where a: "maybe_start_timer e sess w = arm e (phase_timer_of (timer_of sess)) l ?w1" ..
    show ?thesis
    proof (cases "loadout_countdown_active (state w)")
      case True
      then have "arm e (phase_timer_of (timer_of sess)) l ?w1 = ?w1\<lparr>trace := trace ?w1 @ [Timer_lock_acquire, Timer_lock_release]\<rparr>"
        by (intro arm_active) simp
      with a pp show ?thesis
        by (intro exI[of _ "pevs @ [Timer_lock_acquire, Timer_lock_release]"]) simp
    next
      case False
      then have na: "\<not> loadout_countdown_active (state ?w1)" by simp
      from arm_inactive[OF na, of e "phase_timer_of (timer_of sess)" l]
      obtain tk where st: "state (arm e (phase_timer_of (timer_of sess)) l ?w1) = armed_state e l ?w1"
        and tk: "set tk \<subseteq> {Ticker_start (seq_val (state ?w1) + 1) (mode_of (phase_timer_of (timer_of sess)) l)}"
        and tr: "trace (arm e (phase_timer_of (timer_of sess)) l ?w1) = trace ?w1 @
          [Timer_lock_acquire, Log_loadout_start (seq_val (state ?w1) + 1) (mode_of (phase_timer_of (timer_of sess)) l) l (timer_hz ?w1)]
          @ tk @ [Timer_lock_release]"
        by blast
      have tkp: "acquired_slots tk = [] \<and> released_slots tk = [] \<and> all_locked_events tk = [] \<and> armings tk = []"
        using tk by (induction tk) auto
      have as: "armed_state e l ?w1 = armed_state e l w" by (simp add: armed_state_def)
      show ?thesis
        using a st tr tkp pp as False
        by (intro exI[of _ "pevs @ [Timer_lock_acquire, Log_loadout_start (seq_val (state ?w1) + 1) (mode_of (phase_timer_of (timer_of sess)) l) l (timer_hz ?w1)]
          @ tk @ [Timer_lock_release]"]) auto
    qed
  qed
qed

lemma handle_session_effect:
  "\<exists>x evs w6. handle_session e sess w = (None, maybe_start_timer e sess w6)
     \<and> w6 = w\<lparr>state := derived e sess (state w) x, trace := trace w @ evs\<rparr>
     \<and> acquired_slots evs = added_cells (locks_by_cell (state w)) (compute_locked e sess)
     \<and> released_slots evs = removed_cells (locks_by_cell (state w)) (compute_locked e sess)
     \<and> all_locked_events evs =
         (if fires ((derived e sess (state w) x)\<lparr>all_locked_announced := all_locked_announced (state w)\<rparr>)
          then [Log_all_locked (int (fcard (fmdom (compute_locked e sess))))
                  (players_visible (derived e sess (state w) x))]
          else [])
     \<and> armings evs = []"
proof -
  let ?N = "compute_locked e sess" and ?P = "locks_by_cell (state w)"
  let ?lc = "(case localPlayerCellId sess of None \<Rightarrow> local_cell_id (state w) | Some v \<Rightarrow> v)"
  let ?n = "int (card (visible_cells sess))"
  let ?pv = "(if ?n \<noteq> players_visible (state w) \<and> ?n > 0 then ?n else players_visible (state w))"
  define w1 where "w1 = w\<lparr>state := (state w)\<lparr>local_cell_id := ?lc\<rparr>\<rparr>"
  define w2 where "w2 = update_players sess w1"
  have pv1: "players_visible (state w1) = players_visible (state w)" by (simp add: w1_def)
  obtain evs1 where w2: "w2 = w1\<lparr>state := (state w1)\<lparr>players_visible := ?pv\<rparr>, trace := trace w1 @ evs1\<rparr>"
    and p1: "acquired_slots evs1 = []" "released_slots evs1 = []" "all_locked_events evs1 = []" "armings evs1 = []"
    using update_players_effect[of sess w1] unfolding w2_def pv1 by blast
  have P2: "locks_by_cell (state w2) = ?P" by (simp add: w2 w1_def)
  have "set (added_cells ?P ?N) \<subseteq> fset (fmdom ?N)"
    by (auto simp: added_cells_def)
  from log_added_effect[OF this, of e w2] obtain x evs2 where
    la: "log_added e ?N (added_cells ?P ?N) w2 =
       (None, w2\<lparr>state := (state w2)\<lparr>locked_champ_id := x\<rparr>, trace := trace w2 @ evs2\<rparr>)"
    and p2: "acquired_slots evs2 = added_cells ?P ?N" "released_slots evs2 = []"
       "all_locked_events evs2 = []" "armings evs2 = []"
    by blast
  define w3 where "w3 = w2\<lparr>state := (state w2)\<lparr>locked_champ_id := x\<rparr>, trace := trace w2 @ evs2\<rparr>"
  have P3: "locks_by_cell (state w3) = ?P" by (simp add: w3_def P2)
  from log_removed_effect[OF P3, of e ?N "removed_cells ?P ?N"] obtain evs3 where
    lr: "log_removed e ?N (removed_cells ?P ?N) w3 = w3\<lparr>trace := trace w3 @ evs3\<rparr>"
    and p3: "acquired_slots evs3 = []" "released_slots evs3 = removed_cells ?P ?N"
       "all_locked_events evs3 = []" "armings evs3 = []"
    by blast
  define w5 where "w5 = (w3\<lparr>trace := trace w3 @ evs3\<rparr>)\<lparr>state := (state w3)\<lparr>locks_by_cell := ?N\<rparr>\<rparr>"
  define w6 where "w6 = update_all_locked w5"
  have hs: "handle_session e sess w = (None, maybe_start_timer e sess w6)"
    unfolding handle_session_def Let_def
    using la lr P2 by (simp add: w1_def[symmetric] w2_def[symmetric] w3_def[symmetric] w5_def[symmetric] w6_def[symmetric])
  let ?evs4 = "(if fires (state w5) then [Log_all_locked (locked_count (state w5)) (players_visible (state w5))] else [])"
  have s5: "state w5 = (derived e sess (state w) x)\<lparr>all_locked_announced := all_locked_announced (state w)\<rparr>"
    by (rule shared_state.equality) (simp_all add: w5_def w3_def w2 w1_def derived_def Let_def)
  have lc5: "locked_count (state w5) = int (fcard (fmdom ?N))"
    by (simp add: w5_def locked_count_def)
  have pv5: "players_visible (state w5) = players_visible (derived e sess (state w) x)"
    by (simp add: s5)
  have u: "w6 = w5\<lparr>state := (state w5)\<lparr>all_locked_announced :=
            (if locked_count (state w5) < players_visible (state w5) then False
             else if players_visible (state w5) > 0 then True
             else all_locked_announced (state w5))\<rparr>,
       trace := trace w5 @ ?evs4\<rparr>"
    unfolding w6_def by (rule update_all_locked_effect)
  have st6: "state w6 = derived e sess (state w) x"
    by (rule shared_state.equality)
       (simp_all add: u w5_def w3_def w2 w1_def derived_def Let_def locked_count_def)
  have tr6: "trace w6 = trace w @ (evs1 @ evs2 @ evs3 @ ?evs4)"
    by (simp add: u w5_def w3_def w2 w1_def)
  have w6eq: "w6 = w\<lparr>state := derived e sess (state w) x, trace := trace w @ (evs1 @ evs2 @ evs3 @ ?evs4)\<rparr>"
    by (rule thread.equality) (simp_all add: st6 tr6, simp_all add: u w5_def w3_def w2 w1_def)
  show ?thesis
    apply (intro exI[of _ x] exI[of _ "evs1 @ evs2 @ evs3 @ ?evs4"] exI[of _ w6])
    using hs w6eq p1 p2 p3 s5 lc5 pv5 by (simp split: if_splits)
qed

lemma armed_state_fields [simp]:
  "players_visible (armed_state e l w) = players_visible (state w)"
  "locks_by_cell (armed_state e l w) = locks_by_cell (state w)"
  "all_locked_announced (armed_state e l w) = all_locked_announced (state w)"
  "local_cell_id (armed_state e l w) = local_cell_id (state w)"
  "locked_champ_id (armed_state e l w) = locked_champ_id (state w)"
  "phase (armed_state e l w) = phase (state w)"
  "hovered_champ_id (armed_state e l w) = hovered_champ_id (state w)"
  "loadout_countdown_active (armed_state e l w)"
  "ticker_seq (armed_state e l w) = Some (seq_val (state w) + 1)"
  "current_ticker (armed_state e l w) = seq_val (state w) + 1"
  "loadout_left0_ms (armed_state e l w) = l"
  "loadout_t0 (armed_state e l w) = monotonic e (n_monotonic w)"
  by (simp_all add: armed_state_def)

lemma derived_fields [simp]:
  "locks_by_cell (derived e sess s x) = compute_locked e sess"
  "players_visible (derived e sess s x) =
     (if int (card (visible_cells sess)) \<noteq> players_visible s \<and> int (card (visible_cells sess)) > 0
      then int (card (visible_cells sess)) else players_visible s)"
  "all_locked_announced (derived e sess s x) =
     (if int (fcard (fmdom (compute_locked e sess))) < players_visible (derived e sess s x) then False
      else if players_visible (derived e sess s x) > 0 then True else all_locked_announced s)"
  "ticker_seq (derived e sess s x) = ticker_seq s"
  "loadout_countdown_active (derived e sess s x) = loadout_countdown_active s"
  "current_ticker (derived e sess s x) = current_ticker s"
  "loadout_left0_ms (derived e sess s x) = loadout_left0_ms s"
  "loadout_t0 (derived e sess s x) = loadout_t0 s"
  "phase (derived e sess s x) = phase s"
  "hovered_champ_id (derived e sess s x) = hovered_champ_id s"
  by (simp_all add: derived_def Let_def)

lemma session_update_effect:
  "\<exists>x evs. fst (handle_session e sess w) = None
     \<and> trace (session_update e sess w) = trace w @ evs
     \<and> acquired_slots evs = added_cells (locks_by_cell (state w)) (compute_locked e sess)
     \<and> released_slots evs = removed_cells (locks_by_cell (state w)) (compute_locked e sess)
     \<and> all_locked_events evs =
         (if fires ((derived e sess (state w) x)\<lparr>all_locked_announced := all_locked_announced (state w)\<rparr>)
          then [Log_all_locked (int (fcard (fmdom (compute_locked e sess))))
                  (players_visible (derived e sess (state w) x))]
          else [])
     \<and> (armings evs = [] \<and> state (session_update e sess w) = derived e sess (state w) x
        \<or> (\<exists>ev l. armings evs = [ev] \<and> \<not> loadout_countdown_active (state w)
              \<and> state (session_update e sess w) =
                  armed_state e l (w\<lparr>state := derived e sess (state w) x\<rparr>)))"
proof -
  obtain x evs w6 where hs: "handle_session e sess w = (None, maybe_start_timer e sess w6)"
    and w6: "w6 = w\<lparr>state := derived e sess (state w) x, trace := trace w @ evs\<rparr>"
    and a: "acquired_slots evs = added_cells (locks_by_cell (state w)) (compute_locked e sess)"
    and r: "released_slots evs = removed_cells (locks_by_cell (state w)) (compute_locked e sess)"
    and al: "all_locked_events evs =
         (if fires ((derived e sess (state w) x)\<lparr>all_locked_announced := all_locked_announced (state w)\<rparr>)
          then [Log_all_locked (int (fcard (fmdom (compute_locked e sess))))
                  (players_visible (derived e sess (state w) x))]
          else [])"
    and ar: "armings evs = []"
    using handle_session_effect[of e sess w] by blast
  obtain evs2 where t2: "trace (maybe_start_timer e sess w6) = trace w6 @ evs2"
    and p2: "acquired_slots evs2 = []" "released_slots evs2 = []" "all_locked_events evs2 = []"
    and st: "armings evs2 = [] \<and> state (maybe_start_timer e sess w6) = state w6
        \<or> (\<exists>ev l. armings evs2 = [ev] \<and> \<not> loadout_countdown_active (state w6)
              \<and> state (maybe_start_timer e sess w6) = armed_state e l w6)"
    using maybe_start_timer_effect[of e sess w6] by blast
  have as: "\<And>l. armed_state e l w6 = armed_state e l (w\<lparr>state := derived e sess (state w) x\<rparr>)"
    by (simp add: armed_state_def w6)
  have su: "session_update e sess w = maybe_start_timer e sess w6"
    by (simp add: session_update_def hs)
  have s6: "state w6 = derived e sess (state w) x" "trace w6 = trace w @ evs" by (simp_all add: w6)
  show ?thesis
    apply (intro exI[of _ x] exI[of _ "evs @ evs2"])
    using hs su a r al ar t2 p2 st as s6 by auto
qed

section \<open>The lock diff\<close>

text \<open>
  Claim C2. A session update on a stored lock map \<open>P\<close>, with \<open>N\<close> the map that
  \<open>compute_locked\<close> gives for the payload, raises nothing; the slots of its lock-acquired lines
  are the keys of \<open>N\<close> that are not keys of \<open>P\<close>, those of its lock-released lines the keys
  of \<open>P\<close> that are not keys of \<open>N\<close>, each in increasing order; and afterwards the stored map
  is \<open>N\<close>.
\<close>

theorem lock_diff_by_key_set:
  "fst (handle_session e sess w) = None
   \<and> acquired_slots (new_events w (session_update e sess w))
       = sorted_list_of_set (fset (fmdom (compute_locked e sess)) - fset (fmdom (locks_by_cell (state w))))
   \<and> released_slots (new_events w (session_update e sess w))
       = sorted_list_of_set (fset (fmdom (locks_by_cell (state w))) - fset (fmdom (compute_locked e sess)))
   \<and> set (acquired_slots (new_events w (session_update e sess w)))
       = fset (fmdom (compute_locked e sess)) - fset (fmdom (locks_by_cell (state w)))
   \<and> set (released_slots (new_events w (session_update e sess w)))
       = fset (fmdom (locks_by_cell (state w))) - fset (fmdom (compute_locked e sess))
   \<and> locks_by_cell (state (session_update e sess w)) = compute_locked e sess"
proof -
  obtain x evs where n: "fst (handle_session e sess w) = None"
    and t: "trace (session_update e sess w) = trace w @ evs"
    and a: "acquired_slots evs = added_cells (locks_by_cell (state w)) (compute_locked e sess)"
    and r: "released_slots evs = removed_cells (locks_by_cell (state w)) (compute_locked e sess)"
    and st: "(armings evs = [] \<and> state (session_update e sess w) = derived e sess (state w) x
        \<or> (\<exists>ev l. armings evs = [ev] \<and> \<not> loadout_countdown_active (state w)
              \<and> state (session_update e sess w) =
                  armed_state e l (w\<lparr>state := derived e sess (state w) x\<rparr>)))"
    using session_update_effect[of e sess w] by blast
  have ne: "new_events w (session_update e sess w) = evs"
    using t by (rule new_events_append)
  have l: "locks_by_cell (state (session_update e sess w)) = compute_locked e sess"
    using st by auto
  show ?thesis
    using n a r l unfolding ne
    by (simp add: added_cells_def removed_cells_def sorted_list_of_fset.rep_eq)
qed

text \<open>
  Claim C9. A slot that is a key of both maps, with a different champion in each, gets no
  lock-acquired and no lock-released line, and the stored map has the new champion for it
  after the update.
\<close>

theorem changed_champion_is_silent:
  "fmlookup (locks_by_cell (state w)) cid = Some a \<Longrightarrow>
   fmlookup (compute_locked e sess) cid = Some b \<Longrightarrow> a \<noteq> b \<Longrightarrow>
   cid \<notin> set (acquired_slots (new_events w (session_update e sess w)))
   \<and> cid \<notin> set (released_slots (new_events w (session_update e sess w)))
   \<and> fmlookup (locks_by_cell (state (session_update e sess w))) cid = Some b"
proof -
  assume P: "fmlookup (locks_by_cell (state w)) cid = Some a"
    and N: "fmlookup (compute_locked e sess) cid = Some b"
  obtain x evs where t: "trace (session_update e sess w) = trace w @ evs"
    and a: "acquired_slots evs = added_cells (locks_by_cell (state w)) (compute_locked e sess)"
    and r: "released_slots evs = removed_cells (locks_by_cell (state w)) (compute_locked e sess)"
    and st: "(armings evs = [] \<and> state (session_update e sess w) = derived e sess (state w) x
        \<or> (\<exists>ev l. armings evs = [ev] \<and> \<not> loadout_countdown_active (state w)
              \<and> state (session_update e sess w) =
                  armed_state e l (w\<lparr>state := derived e sess (state w) x\<rparr>)))"
    using session_update_effect[of e sess w] by blast
  have ne: "new_events w (session_update e sess w) = evs"
    using t by (rule new_events_append)
  have l: "locks_by_cell (state (session_update e sess w)) = compute_locked e sess"
    using st by auto
  have inP: "cid \<in> fset (fmdom (locks_by_cell (state w)))" using P by (simp add: fmdomI)
  have inN: "cid \<in> fset (fmdom (compute_locked e sess))" using N by (simp add: fmdomI)
  show ?thesis
    using inP inN N l a r unfolding ne
    by (simp add: added_cells_def removed_cells_def)
qed

theorem changed_champion_is_silent_witness:
  "fmlookup (locks_by_cell (state (idle_thread\<lparr>state := idle_state\<lparr>locks_by_cell := fmap_of_list [(1, 10)]\<rparr>\<rparr>))) 1 = Some 10
   \<and> fmlookup (compute_locked (quiet_env (\<lambda>s. fmap_of_list [(1, 20)])) empty_session) 1 = Some 20
   \<and> (10::int) \<noteq> 20
   \<and> 1 \<notin> set (acquired_slots (new_events (idle_thread\<lparr>state := idle_state\<lparr>locks_by_cell := fmap_of_list [(1, 10)]\<rparr>\<rparr>)
          (session_update (quiet_env (\<lambda>s. fmap_of_list [(1, 20)])) empty_session
             (idle_thread\<lparr>state := idle_state\<lparr>locks_by_cell := fmap_of_list [(1, 10)]\<rparr>\<rparr>))))
   \<and> 1 \<notin> set (released_slots (new_events (idle_thread\<lparr>state := idle_state\<lparr>locks_by_cell := fmap_of_list [(1, 10)]\<rparr>\<rparr>)
          (session_update (quiet_env (\<lambda>s. fmap_of_list [(1, 20)])) empty_session
             (idle_thread\<lparr>state := idle_state\<lparr>locks_by_cell := fmap_of_list [(1, 10)]\<rparr>\<rparr>))))
   \<and> fmlookup (locks_by_cell (state (session_update (quiet_env (\<lambda>s. fmap_of_list [(1, 20)])) empty_session
             (idle_thread\<lparr>state := idle_state\<lparr>locks_by_cell := fmap_of_list [(1, 10)]\<rparr>\<rparr>)))) 1 = Some 20"
proof -
  have h1: "fmlookup (locks_by_cell (state (idle_thread\<lparr>state := idle_state\<lparr>locks_by_cell := fmap_of_list [(1, 10)]\<rparr>\<rparr>))) 1 = Some 10"
    by simp
  have h2: "fmlookup (compute_locked (quiet_env (\<lambda>s. fmap_of_list [(1, 20)])) empty_session) 1 = Some 20"
    by (simp add: quiet_env_def)
  have h3: "(10::int) \<noteq> 20" by simp
  from changed_champion_is_silent[OF h1 h2 h3] h1 h2 h3 show ?thesis by blast
qed

lemma add_cells_set: "add_cells cs seen = seen \<union> {c. Some c \<in> set cs}"
  by (induction cs arbitrary: seen) (auto split: option.splits)

lemma add_rounds_set:
  "add_rounds rnds seen = seen \<union> {c. Some c \<in> actorCellId ` (\<Union>rnd \<in> set rnds. set (or_empty rnd))}"
  by (induction rnds arbitrary: seen) (auto simp: add_cells_set)

lemma roster_cells_set:
  "roster_cells sess = {c. Some c \<in> cellId ` (set (or_empty (myTeam sess)) \<union> set (or_empty (theirTeam sess)))}"
  by (auto simp: roster_cells_def add_cells_set)

lemma session_update_players:
  "players_visible (state (session_update e sess w)) =
     (if int (card (visible_cells sess)) \<noteq> players_visible (state w) \<and> int (card (visible_cells sess)) > 0
      then int (card (visible_cells sess)) else players_visible (state w))"
proof -
  obtain x evs where
    st: "(armings evs = [] \<and> state (session_update e sess w) = derived e sess (state w) x
        \<or> (\<exists>ev l. armings evs = [ev] \<and> \<not> loadout_countdown_active (state w)
              \<and> state (session_update e sess w) =
                  armed_state e l (w\<lparr>state := derived e sess (state w) x\<rparr>)))"
    using session_update_effect[of e sess w] by blast
  then show ?thesis by auto
qed

lemma deliver_phase: "deliver e (phase_event d) w = handle_phase d w"
  by (simp add: deliver_def handle_api_event_def phase_event_def)

section \<open>Phase updates\<close>

text \<open>
  Claim C7. A phase event whose data is not a string, or is the stored phase, changes
  nothing. Entering \<open>ChampSelect\<close> sets the phase and clears the hover caches and the set of
  processed action ids; the player count and the lock map stay. Changing to any other phase
  sets the phase, clears the hovered champion, zeroes the player count, empties the lock
  map, and clears the all-locked flag and the countdown-active flag; no other field of the
  shared state changes.
\<close>

theorem phase_update_frame:
  "deliver e (phase_event JNull) w = w
   \<and> deliver e (phase_event (JInt n)) w = w
   \<and> deliver e (phase_event (JSession sess)) w = w
   \<and> (phase (state w) = Some ph \<longrightarrow> deliver e (phase_event (JStr ph)) w = w)
   \<and> (phase (state w) \<noteq> Some ''ChampSelect'' \<longrightarrow>
        state (deliver e (phase_event (JStr ''ChampSelect'')) w) =
          (state w)\<lparr>phase := Some ''ChampSelect'',
                    last_hovered_skin_key := None, last_hovered_skin_id := None,
                    last_hovered_skin_slug := None, last_hover_written := False,
                    processed_action_ids := {}\<rparr>
        \<and> players_visible (state (deliver e (phase_event (JStr ''ChampSelect'')) w))
            = players_visible (state w)
        \<and> locks_by_cell (state (deliver e (phase_event (JStr ''ChampSelect'')) w))
            = locks_by_cell (state w))
   \<and> (phase (state w) \<noteq> Some ph \<and> ph \<noteq> ''ChampSelect'' \<longrightarrow>
        state (deliver e (phase_event (JStr ph)) w) =
          (state w)\<lparr>phase := Some ph, hovered_champ_id := None, players_visible := 0,
                    locks_by_cell := fmempty, all_locked_announced := False,
                    loadout_countdown_active := False\<rparr>)
   \<and> ticker (deliver e (phase_event d) w) = ticker w
   \<and> db (deliver e (phase_event d) w) = db w"
  unfolding deliver_phase
  by (cases d) (auto simp add: handle_phase_def Let_def emit_def)

theorem phase_update_frame_witness:
  "phase (state (idle_thread\<lparr>state := busy_state\<rparr>)) \<noteq> Some ''Lobby'' \<and> ''Lobby'' \<noteq> ''ChampSelect''
   \<and> state (deliver (quiet_env (\<lambda>s. fmempty)) (phase_event (JStr ''Lobby'')) (idle_thread\<lparr>state := busy_state\<rparr>))
       = busy_state\<lparr>phase := Some ''Lobby'', hovered_champ_id := None, players_visible := 0,
                    locks_by_cell := fmempty, all_locked_announced := False,
                    loadout_countdown_active := False\<rparr>
   \<and> phase (state (idle_thread\<lparr>state := busy_state\<rparr>)) = Some ''ChampSelect''
   \<and> deliver (quiet_env (\<lambda>s. fmempty)) (phase_event (JStr ''ChampSelect'')) (idle_thread\<lparr>state := busy_state\<rparr>)
       = idle_thread\<lparr>state := busy_state\<rparr>
   \<and> phase (state idle_thread) \<noteq> Some ''ChampSelect''
   \<and> state (deliver (quiet_env (\<lambda>s. fmempty)) (phase_event (JStr ''ChampSelect'')) idle_thread)
       = idle_state\<lparr>phase := Some ''ChampSelect''\<rparr>"
proof -
  have h1: "phase (state (idle_thread\<lparr>state := busy_state\<rparr>)) \<noteq> Some ''Lobby'' \<and> ''Lobby'' \<noteq> ''ChampSelect''"
    by (simp add: busy_state_def)
  have h2: "phase (state (idle_thread\<lparr>state := busy_state\<rparr>)) = Some ''ChampSelect''"
    by (simp add: busy_state_def)
  have h3: "phase (state idle_thread) \<noteq> Some ''ChampSelect''"
    by (simp add: idle_thread_def idle_state_def)
  have i: "(state idle_thread)\<lparr>phase := Some ''ChampSelect'',
                    last_hovered_skin_key := None, last_hovered_skin_id := None,
                    last_hovered_skin_slug := None, last_hover_written := False,
                    processed_action_ids := {}\<rparr> = idle_state\<lparr>phase := Some ''ChampSelect''\<rparr>"
    by (simp add: idle_thread_def idle_state_def)
  show ?thesis
    using phase_update_frame[where e = "quiet_env (\<lambda>s. fmempty)" and w = "idle_thread\<lparr>state := busy_state\<rparr>" and ph = "''Lobby''"]
      phase_update_frame[where e = "quiet_env (\<lambda>s. fmempty)" and w = "idle_thread\<lparr>state := busy_state\<rparr>" and ph = "''ChampSelect''"]
      phase_update_frame[where e = "quiet_env (\<lambda>s. fmempty)" and w = idle_thread and ph = "''ChampSelect''"]
      h1 h2 h3 i
    by simp
qed

lemma new_events_trans:
  "trace w1 = trace w @ a \<Longrightarrow> trace w2 = trace w1 @ b \<Longrightarrow>
   new_events w w2 = new_events w w1 @ new_events w1 w2"
  by (simp add: new_events_def)

lemma session_update_trace: "\<exists>evs. trace (session_update e sess w) = trace w @ evs"
  using session_update_effect[of e sess w] by blast

lemma run_sessions_trace: "\<exists>evs. trace (run_sessions e ss w) = trace w @ evs"
proof (induction ss arbitrary: w)
  case Nil
  show ?case by (simp add: run_sessions_def)
next
  case (Cons s ss)
  obtain a where a: "trace (session_update e s w) = trace w @ a"
    using session_update_trace by blast
  obtain b where "trace (run_sessions e ss (session_update e s w)) = trace (session_update e s w) @ b"
    using Cons.IH by blast
  with a show ?case by (simp add: run_sessions_def)
qed

lemma session_update_all_locked:
  "all_locked_events (new_events w (session_update e sess w)) =
     (if players_visible (state (session_update e sess w)) > 0
         \<and> players_visible (state (session_update e sess w)) \<le> locked_count (state (session_update e sess w))
         \<and> \<not> all_locked_announced (state w)
      then [Log_all_locked (locked_count (state (session_update e sess w)))
              (players_visible (state (session_update e sess w)))]
      else [])
   \<and> all_locked_announced (state (session_update e sess w)) =
     (if locked_count (state (session_update e sess w)) < players_visible (state (session_update e sess w))
      then False
      else if players_visible (state (session_update e sess w)) > 0 then True
      else all_locked_announced (state w))"
proof -
  obtain x evs where t: "trace (session_update e sess w) = trace w @ evs"
    and al: "all_locked_events evs =
         (if fires ((derived e sess (state w) x)\<lparr>all_locked_announced := all_locked_announced (state w)\<rparr>)
          then [Log_all_locked (int (fcard (fmdom (compute_locked e sess))))
                  (players_visible (derived e sess (state w) x))]
          else [])"
    and st: "(armings evs = [] \<and> state (session_update e sess w) = derived e sess (state w) x
        \<or> (\<exists>ev l. armings evs = [ev] \<and> \<not> loadout_countdown_active (state w)
              \<and> state (session_update e sess w) =
                  armed_state e l (w\<lparr>state := derived e sess (state w) x\<rparr>)))"
    using session_update_effect[of e sess w] by blast
  have ne: "new_events w (session_update e sess w) = evs"
    using t by (rule new_events_append)
  have pv: "players_visible (state (session_update e sess w)) = players_visible (derived e sess (state w) x)"
    using st by auto
  have lc: "locked_count (state (session_update e sess w)) = int (fcard (fmdom (compute_locked e sess)))"
    using st by (auto simp: locked_count_def)
  have fl: "all_locked_announced (state (session_update e sess w)) = all_locked_announced (derived e sess (state w) x)"
    using st by auto
  have f: "fires ((derived e sess (state w) x)\<lparr>all_locked_announced := all_locked_announced (state w)\<rparr>)
      = (players_visible (derived e sess (state w) x) > 0
         \<and> players_visible (derived e sess (state w) x) \<le> int (fcard (fmdom (compute_locked e sess)))
         \<and> \<not> all_locked_announced (state w))"
    by (simp add: fires_def locked_count_def)
  show ?thesis
    unfolding ne al f pv lc fl
    by (simp del: derived_fields(2) add: derived_fields(3))
qed

lemma streak_announced_silent:
  "streak e ss w \<Longrightarrow> all_locked_announced (state w) \<Longrightarrow>
   all_locked_events (new_events w (run_sessions e ss w)) = []"
proof (induction ss arbitrary: w)
  case Nil
  show ?case by (simp add: run_sessions_def new_events_def)
next
  case (Cons s ss)
  let ?w1 = "session_update e s w"
  obtain a where a: "trace ?w1 = trace w @ a" using session_update_trace by blast
  obtain b where b: "trace (run_sessions e ss ?w1) = trace ?w1 @ b" using run_sessions_trace by blast
  have r: "run_sessions e (s # ss) w = run_sessions e ss ?w1" by (simp add: run_sessions_def)
  from Cons.prems have ge: "players_visible (state ?w1) \<le> locked_count (state ?w1)" and s': "streak e ss ?w1"
    by simp_all
  have none: "all_locked_events (new_events w ?w1) = []"
    using session_update_all_locked[of w e s] Cons.prems(2) by simp
  have "all_locked_announced (state ?w1)"
    using session_update_all_locked[of w e s] Cons.prems(2) ge by (simp split: if_splits)
  from Cons.IH[OF s' this] none show ?case
    unfolding r new_events_trans[OF a b] by simp
qed

lemma streak_at_most_once:
  "streak e ss w \<Longrightarrow> length (all_locked_events (new_events w (run_sessions e ss w))) \<le> 1"
proof (induction ss arbitrary: w)
  case Nil
  show ?case by (simp add: run_sessions_def new_events_def)
next
  case (Cons s ss)
  let ?w1 = "session_update e s w"
  obtain a where a: "trace ?w1 = trace w @ a" using session_update_trace by blast
  obtain b where b: "trace (run_sessions e ss ?w1) = trace ?w1 @ b" using run_sessions_trace by blast
  have r: "run_sessions e (s # ss) w = run_sessions e ss ?w1" by (simp add: run_sessions_def)
  from Cons.prems have ge: "players_visible (state ?w1) \<le> locked_count (state ?w1)" and s': "streak e ss ?w1"
    by simp_all
  show ?case
  proof (cases "all_locked_events (new_events w ?w1) = []")
    case True
    with Cons.IH[OF s'] show ?thesis
      unfolding r new_events_trans[OF a b] by simp
  next
    case False
    then have one: "length (all_locked_events (new_events w ?w1)) = 1"
      and pos: "players_visible (state ?w1) > 0"
      using session_update_all_locked[of w e s] by (simp_all split: if_splits)
    have "all_locked_announced (state ?w1)"
      using session_update_all_locked[of w e s] ge pos by simp
    from streak_announced_silent[OF s' this] one show ?thesis
      unfolding r new_events_trans[OF a b] by simp
  qed
qed

section \<open>The all-locked announcement\<close>

text \<open>
  Claim C3. A session update prints the all-locked line exactly when, after it, the
  visible count is positive, the lock count is at least the visible count, and the flag
  was unset before; the flag is then set, and it is cleared whenever the lock count is below
  the visible count. So a run of session updates that all end with the lock count at least
  the visible count prints the line at most once, and the first update that reaches the
  visible count again after an update that ended below it prints the line.
\<close>

theorem all_locked_once_per_streak:
  "all_locked_events (new_events w (session_update e sess w)) =
     (if players_visible (state (session_update e sess w)) > 0
         \<and> players_visible (state (session_update e sess w)) \<le> locked_count (state (session_update e sess w))
         \<and> \<not> all_locked_announced (state w)
      then [Log_all_locked (locked_count (state (session_update e sess w)))
              (players_visible (state (session_update e sess w)))]
      else [])
   \<and> all_locked_announced (state (session_update e sess w)) =
     (if locked_count (state (session_update e sess w)) < players_visible (state (session_update e sess w))
      then False
      else if players_visible (state (session_update e sess w)) > 0 then True
      else all_locked_announced (state w))
   \<and> (streak e ss w \<longrightarrow> length (all_locked_events (new_events w (run_sessions e ss w))) \<le> 1)
   \<and> (locked_count (state (session_update e s1 w)) < players_visible (state (session_update e s1 w))
       \<and> players_visible (state (session_update e s2 (session_update e s1 w)))
           \<le> locked_count (state (session_update e s2 (session_update e s1 w)))
       \<longrightarrow> length (all_locked_events
                    (new_events (session_update e s1 w) (session_update e s2 (session_update e s1 w)))) = 1)"
proof -
  let ?w1 = "session_update e s1 w"
  let ?w2 = "session_update e s2 ?w1"
  have last: "length (all_locked_events (new_events ?w1 ?w2)) = 1"
    if d: "locked_count (state ?w1) < players_visible (state ?w1)"
      and u: "players_visible (state ?w2) \<le> locked_count (state ?w2)"
  proof -
    have "0 \<le> locked_count (state ?w1)" by (simp add: locked_count_def)
    with d have p1: "players_visible (state ?w1) > 0" by linarith
    have f1: "\<not> all_locked_announced (state ?w1)"
      using session_update_all_locked[of w e s1] d by simp
    have p2: "players_visible (state ?w2) > 0"
      using p1 by (simp add: session_update_players)
    show ?thesis
      using session_update_all_locked[of ?w1 e s2] f1 p2 u by simp
  qed
  show ?thesis
    using session_update_all_locked[of w e sess] streak_at_most_once[of e ss w] last
    by blast
qed

theorem all_locked_once_per_streak_witness:
  "streak (quiet_env example_locks) [three_players 3, three_players 3] idle_thread
   \<and> length (all_locked_events
        (new_events idle_thread
           (run_sessions (quiet_env example_locks) [three_players 3, three_players 3] idle_thread))) \<le> 1
   \<and> locked_count (state (session_update (quiet_env example_locks) (three_players 2) idle_thread))
       < players_visible (state (session_update (quiet_env example_locks) (three_players 2) idle_thread))
   \<and> players_visible (state (session_update (quiet_env example_locks) (three_players 3)
          (session_update (quiet_env example_locks) (three_players 2) idle_thread)))
       \<le> locked_count (state (session_update (quiet_env example_locks) (three_players 3)
          (session_update (quiet_env example_locks) (three_players 2) idle_thread)))
   \<and> length (all_locked_events
        (new_events
          (session_update (quiet_env example_locks) (three_players 2) idle_thread)
          (session_update (quiet_env example_locks) (three_players 3)
            (session_update (quiet_env example_locks) (three_players 2) idle_thread)))) = 1"
proof -
  let ?e = "quiet_env example_locks"
  have h1: "streak ?e [three_players 3, three_players 3] idle_thread"
    by code_simp
  have h2: "locked_count (state (session_update ?e (three_players 2) idle_thread))
       < players_visible (state (session_update ?e (three_players 2) idle_thread))"
    by code_simp
  have h3: "players_visible (state (session_update ?e (three_players 3) (session_update ?e (three_players 2) idle_thread)))
       \<le> locked_count (state (session_update ?e (three_players 3) (session_update ?e (three_players 2) idle_thread)))"
    by code_simp
  show ?thesis
    using all_locked_once_per_streak[where e = ?e and w = idle_thread and ss = "[three_players 3, three_players 3]"
        and ?s1.0 = "three_players 2" and ?s2.0 = "three_players 3"]
      h1 h2 h3
    by blast
qed

lemma handle_phase_effect:
  "\<exists>evs. trace (handle_phase d w) = trace w @ evs \<and> armings evs = []
     \<and> ticker_seq (state (handle_phase d w)) = ticker_seq (state w)"
proof (cases d)
  case (JStr ph)
  show ?thesis
  proof (cases "Some ph \<noteq> phase (state w)")
    case True
    show ?thesis
    proof (cases "ph \<in> set known_phases")
      case True
      with \<open>Some ph \<noteq> phase (state w)\<close> JStr show ?thesis
        by (intro exI[of _ "[Log_phase ph]"]) (simp add: handle_phase_def Let_def)
    next
      case False
      with \<open>Some ph \<noteq> phase (state w)\<close> JStr show ?thesis
        by (intro exI[of _ "[]"]) (simp add: handle_phase_def Let_def)
    qed
  next
    case False
    with JStr show ?thesis by (intro exI[of _ "[]"]) (simp add: handle_phase_def)
  qed
qed (simp_all add: handle_phase_def)

lemma handle_hover_effect:
  "\<exists>evs. trace (handle_hover e d w) = trace w @ evs \<and> armings evs = []
     \<and> ticker_seq (state (handle_hover e d w)) = ticker_seq (state w)"
proof (cases "int_of_data e d")
  case None
  then show ?thesis by (simp add: handle_hover_def)
next
  case (Some cid)
  show ?thesis
  proof (cases "cid \<noteq> 0 \<and> Some cid \<noteq> hovered_champ_id (state w)")
    case True
    with Some show ?thesis
      by (intro exI[of _ "[Log_hover_champ (case champ_name_by_id (db w) cid of
                         None \<Rightarrow> ''champ_'' @ str_int cid
                       | Some n \<Rightarrow> if n = [] then ''champ_'' @ str_int cid else n) cid]"])
         (simp add: handle_hover_def Let_def)
  next
    case False
    with Some show ?thesis by (intro exI[of _ "[]"]) (auto simp add: handle_hover_def)
  qed
qed

lemma session_update_seq:
  "\<exists>evs. trace (session_update e sess w) = trace w @ evs
     \<and> (armings evs = [] \<and> ticker_seq (state (session_update e sess w)) = ticker_seq (state w)
            \<and> loadout_countdown_active (state (session_update e sess w)) = loadout_countdown_active (state w)
         \<or> (\<exists>ev. armings evs = [ev]) \<and> \<not> loadout_countdown_active (state w)
            \<and> loadout_countdown_active (state (session_update e sess w))
            \<and> ticker_seq (state (session_update e sess w)) = Some (seq_val (state w) + 1)
            \<and> current_ticker (state (session_update e sess w)) = seq_val (state w) + 1)"
proof -
  obtain x evs where t: "trace (session_update e sess w) = trace w @ evs"
    and st: "(armings evs = [] \<and> state (session_update e sess w) = derived e sess (state w) x
        \<or> (\<exists>ev l. armings evs = [ev] \<and> \<not> loadout_countdown_active (state w)
              \<and> state (session_update e sess w) =
                  armed_state e l (w\<lparr>state := derived e sess (state w) x\<rparr>)))"
    using session_update_effect[of e sess w] by blast
  have sv: "seq_val (derived e sess (state w) x) = seq_val (state w)"
    by (simp add: seq_val_def)
  from st t sv show ?thesis
    by (intro exI[of _ evs]) auto
qed

lemma deliver_seq:
  "\<exists>evs. trace (deliver e p w) = trace w @ evs
     \<and> (armings evs = [] \<and> ticker_seq (state (deliver e p w)) = ticker_seq (state w)
         \<or> (\<exists>ev. armings evs = [ev]) \<and> \<not> loadout_countdown_active (state w)
            \<and> loadout_countdown_active (state (deliver e p w))
            \<and> ticker_seq (state (deliver e p w)) = Some (seq_val (state w) + 1))"
proof -
  have same: "deliver e p w = w \<Longrightarrow> ?thesis"
    by (intro exI[of _ "[]"]) simp
  have su: "deliver e p w = session_update e s w \<Longrightarrow> ?thesis" for s
    using session_update_seq[of e s w] by auto
  have ph: "deliver e p w = handle_phase (data p) w \<Longrightarrow> ?thesis"
    using handle_phase_effect[of "data p" w] by auto
  have ho: "deliver e p w = handle_hover e (data p) w \<Longrightarrow> ?thesis"
    using handle_hover_effect[of e "data p" w] by auto
  have "deliver e p w = w \<or> (\<exists>s. deliver e p w = session_update e s w)
      \<or> deliver e p w = handle_phase (data p) w \<or> deliver e p w = handle_hover e (data p) w"
    by (auto simp add: deliver_def handle_api_event_def session_update_def
          split: option.splits data.splits)
  with same su ph ho show ?thesis by blast
qed

lemma deliver_trace: "\<exists>evs. trace (deliver e p w) = trace w @ evs"
  using deliver_seq[of e p w] by blast

lemma run_events_trace: "\<exists>evs. trace (run_events e ps w) = trace w @ evs"
proof (induction ps arbitrary: w)
  case Nil
  show ?case by (simp add: run_events_def)
next
  case (Cons p ps)
  obtain a where a: "trace (deliver e p w) = trace w @ a"
    using deliver_trace by blast
  obtain b where "trace (run_events e ps (deliver e p w)) = trace (deliver e p w) @ b"
    using Cons.IH by blast
  with a show ?case by (simp add: run_events_def)
qed

lemma deliver_seq_val:
  "seq_val (state (deliver e p w)) = seq_val (state w) + int (length (armings (new_events w (deliver e p w))))
   \<and> length (armings (new_events w (deliver e p w))) \<le> 1
   \<and> (armings (new_events w (deliver e p w)) = [] \<longrightarrow>
        ticker_seq (state (deliver e p w)) = ticker_seq (state w))"
proof -
  obtain evs where t: "trace (deliver e p w) = trace w @ evs"
    and c: "(armings evs = [] \<and> ticker_seq (state (deliver e p w)) = ticker_seq (state w)
         \<or> (\<exists>ev. armings evs = [ev]) \<and> \<not> loadout_countdown_active (state w)
            \<and> loadout_countdown_active (state (deliver e p w))
            \<and> ticker_seq (state (deliver e p w)) = Some (seq_val (state w) + 1))"
    using deliver_seq[of e p w] by blast
  have ne: "new_events w (deliver e p w) = evs" using t by (rule new_events_append)
  from c show ?thesis unfolding ne by (auto simp: seq_val_def)
qed

lemma run_events_seq_val:
  "seq_val (state (run_events e ps w)) =
     seq_val (state w) + int (length (armings (new_events w (run_events e ps w))))"
proof (induction ps arbitrary: w)
  case Nil
  show ?case by (simp add: run_events_def new_events_def)
next
  case (Cons p ps)
  let ?w1 = "deliver e p w"
  obtain a where a: "trace ?w1 = trace w @ a" using deliver_trace by blast
  obtain b where b: "trace (run_events e ps ?w1) = trace ?w1 @ b" using run_events_trace by blast
  have r: "run_events e (p # ps) w = run_events e ps ?w1" by (simp add: run_events_def)
  show ?case
    unfolding r new_events_trans[OF a b] using Cons.IH[of ?w1] deliver_seq_val[of e p w] by simp
qed

section \<open>The ticker sequence number\<close>

text \<open>
  Claim C10. Whatever event is delivered, the sequence number afterwards is the one before
  plus the number of countdown-start lines the event printed, which is at most one; an
  event that starts no countdown leaves \<open>ticker_seq\<close> as it was. So over any run of events
  the number never decreases and counts the countdowns started. Leaving champion selection
  clears the countdown-active flag and leaves the number alone.
\<close>

theorem ticker_seq_counts_armings:
  "seq_val (state (deliver e p w)) = seq_val (state w) + int (length (armings (new_events w (deliver e p w))))
   \<and> length (armings (new_events w (deliver e p w))) \<le> 1
   \<and> (armings (new_events w (deliver e p w)) = [] \<longrightarrow>
        ticker_seq (state (deliver e p w)) = ticker_seq (state w))
   \<and> seq_val (state (run_events e ps w)) =
        seq_val (state w) + int (length (armings (new_events w (run_events e ps w))))
   \<and> seq_val (state w) \<le> seq_val (state (run_events e ps w))
   \<and> (phase (state w) \<noteq> Some ph \<and> ph \<noteq> ''ChampSelect'' \<longrightarrow>
        \<not> loadout_countdown_active (state (deliver e (phase_event (JStr ph)) w))
        \<and> ticker_seq (state (deliver e (phase_event (JStr ph)) w)) = ticker_seq (state w))"
proof -
  have "phase (state w) \<noteq> Some ph \<and> ph \<noteq> ''ChampSelect'' \<longrightarrow>
        \<not> loadout_countdown_active (state (deliver e (phase_event (JStr ph)) w))
        \<and> ticker_seq (state (deliver e (phase_event (JStr ph)) w)) = ticker_seq (state w)"
    unfolding deliver_phase by (auto simp add: handle_phase_def Let_def)
  then show ?thesis
    using deliver_seq_val[of e p w] run_events_seq_val[of e ps w] by simp
qed

theorem ticker_seq_counts_armings_witness:
  "phase (state (idle_thread\<lparr>state := busy_state\<rparr>)) \<noteq> Some ''Lobby'' \<and> ''Lobby'' \<noteq> ''ChampSelect''
   \<and> armings (new_events (idle_thread\<lparr>state := busy_state\<rparr>)
        (deliver (quiet_env (\<lambda>s. fmempty)) (phase_event (JStr ''Lobby'')) (idle_thread\<lparr>state := busy_state\<rparr>))) = []
   \<and> \<not> loadout_countdown_active (state
        (deliver (quiet_env (\<lambda>s. fmempty)) (phase_event (JStr ''Lobby'')) (idle_thread\<lparr>state := busy_state\<rparr>)))
   \<and> ticker_seq (state
        (deliver (quiet_env (\<lambda>s. fmempty)) (phase_event (JStr ''Lobby'')) (idle_thread\<lparr>state := busy_state\<rparr>)))
       = Some 4"
proof -
  let ?w = "idle_thread\<lparr>state := busy_state\<rparr>"
  let ?e = "quiet_env (\<lambda>s. fmempty)"
  have h1: "phase (state ?w) \<noteq> Some ''Lobby'' \<and> ''Lobby'' \<noteq> ''ChampSelect''"
    by (simp add: busy_state_def)
  have h2: "armings (new_events ?w (deliver ?e (phase_event (JStr ''Lobby'')) ?w)) = []"
    by (simp add: deliver_phase handle_phase_def known_phases_def busy_state_def new_events_def
          idle_thread_def Let_def)
  have s: "ticker_seq (state ?w) = Some 4" by (simp add: busy_state_def)
  show ?thesis
    using ticker_seq_counts_armings[where e = ?e and w = ?w and ph = "''Lobby''"
        and p = "phase_event (JStr ''Lobby'')"] h1 h2 s
    by simp
qed

lemma mode_of_positive:
  "l > 0 \<Longrightarrow> mode_of pt l = (if pt = ''FINALIZATION'' then ''finalization'' else ''lcu-probe'')"
  by (simp add: mode_of_def)

section \<open>When the countdown is armed\<close>

text \<open>
  Claim C4, as the code has it. With phase-timer name \<open>FINALIZATION\<close> and a positive
  remaining time, the attempt arms at once with that time. Otherwise, with all visible
  players locked: a positive remaining time arms at once with that time; a non-positive one
  makes the thread call the session endpoint up to 8 times, sleeping 60 ms after each answer
  without a positive time, and arm with the first positive time, or not arm when there is
  none in 8 answers. Otherwise nothing happens. Arming an inactive state records the time and
  prints the mode, \<open>finalization\<close> when the phase-timer name is \<open>FINALIZATION\<close> and
  \<open>lcu-probe\<close> when it is not; arming an active state changes nothing.
\<close>

theorem arming_decision:
  "(phase_timer_of (timer_of sess) = ''FINALIZATION'' \<and> left_ms_of (timer_of sess) > 0 \<longrightarrow>
      maybe_start_timer e sess w = arm e ''FINALIZATION'' (left_ms_of (timer_of sess)) w)
   \<and> (\<not> (phase_timer_of (timer_of sess) = ''FINALIZATION'' \<and> left_ms_of (timer_of sess) > 0)
       \<and> players_visible (state w) > 0 \<and> players_visible (state w) \<le> locked_count (state w)
       \<and> left_ms_of (timer_of sess) > 0 \<longrightarrow>
      maybe_start_timer e sess w = arm e (phase_timer_of (timer_of sess)) (left_ms_of (timer_of sess)) w)
   \<and> (\<not> (phase_timer_of (timer_of sess) = ''FINALIZATION'' \<and> left_ms_of (timer_of sess) > 0)
       \<and> players_visible (state w) > 0 \<and> players_visible (state w) \<le> locked_count (state w)
       \<and> left_ms_of (timer_of sess) \<le> 0
       \<and> k < 8 \<and> (\<forall>j<k. polled e (n_session w + j) \<le> 0) \<and> polled e (n_session w + k) > 0 \<longrightarrow>
      maybe_start_timer e sess w =
        arm e (phase_timer_of (timer_of sess)) (polled e (n_session w + k))
          (w\<lparr>n_session := n_session w + Suc k,
             trace := trace w @ poll_events k @ [Lcu_session_call]\<rparr>))
   \<and> (\<not> (phase_timer_of (timer_of sess) = ''FINALIZATION'' \<and> left_ms_of (timer_of sess) > 0)
       \<and> players_visible (state w) > 0 \<and> players_visible (state w) \<le> locked_count (state w)
       \<and> left_ms_of (timer_of sess) \<le> 0
       \<and> (\<forall>j<8. polled e (n_session w + j) \<le> 0) \<longrightarrow>
      maybe_start_timer e sess w =
        w\<lparr>n_session := n_session w + 8, trace := trace w @ poll_events 8\<rparr>)
   \<and> (\<not> (phase_timer_of (timer_of sess) = ''FINALIZATION'' \<and> left_ms_of (timer_of sess) > 0)
       \<and> \<not> (players_visible (state w) > 0 \<and> players_visible (state w) \<le> locked_count (state w)) \<longrightarrow>
      maybe_start_timer e sess w = w)
   \<and> (\<not> loadout_countdown_active (state w) \<longrightarrow>
        loadout_left0_ms (state (arm e pt l w)) = l
        \<and> loadout_countdown_active (state (arm e pt l w))
        \<and> Log_loadout_start (seq_val (state w) + 1) (mode_of pt l) l (timer_hz w)
             \<in> set (new_events w (arm e pt l w)))
   \<and> (loadout_countdown_active (state w) \<longrightarrow> state (arm e pt l w) = state w)
   \<and> (l > 0 \<longrightarrow> mode_of pt l = (if pt = ''FINALIZATION'' then ''finalization'' else ''lcu-probe''))"
proof -
  let ?pt = "phase_timer_of (timer_of sess)" and ?l = "left_ms_of (timer_of sess)"
  let ?fin = "?pt = ''FINALIZATION'' \<and> ?l > 0"
  let ?all = "players_visible (state w) > 0 \<and> players_visible (state w) \<le> locked_count (state w)"
  have A: "?fin \<longrightarrow> maybe_start_timer e sess w = arm e ''FINALIZATION'' ?l w"
    by (simp add: maybe_start_timer_def Let_def)
  have B: "\<not> ?fin \<and> ?all \<and> ?l > 0 \<longrightarrow> maybe_start_timer e sess w = arm e ?pt ?l w"
    by (simp add: maybe_start_timer_def Let_def)
  have C: "\<not> ?fin \<and> ?all \<and> ?l \<le> 0
       \<and> k < 8 \<and> (\<forall>j<k. polled e (n_session w + j) \<le> 0) \<and> polled e (n_session w + k) > 0 \<longrightarrow>
      maybe_start_timer e sess w =
        arm e ?pt (polled e (n_session w + k))
          (w\<lparr>n_session := n_session w + Suc k,
             trace := trace w @ poll_events k @ [Lcu_session_call]\<rparr>)"
  proof
    assume h: "\<not> ?fin \<and> ?all \<and> ?l \<le> 0
       \<and> k < 8 \<and> (\<forall>j<k. polled e (n_session w + j) \<le> 0) \<and> polled e (n_session w + k) > 0"
    then have "probe e 8 ?l w = ((polled e (n_session w + k), True),
      w\<lparr>n_session := n_session w + Suc k, trace := trace w @ poll_events k @ [Lcu_session_call]\<rparr>)"
      by (intro probe_some) auto
    with h show "maybe_start_timer e sess w =
        arm e ?pt (polled e (n_session w + k))
          (w\<lparr>n_session := n_session w + Suc k,
             trace := trace w @ poll_events k @ [Lcu_session_call]\<rparr>)"
      by (simp add: maybe_start_timer_def Let_def)
  qed
  have D: "\<not> ?fin \<and> ?all \<and> ?l \<le> 0 \<and> (\<forall>j<8. polled e (n_session w + j) \<le> 0) \<longrightarrow>
      maybe_start_timer e sess w = w\<lparr>n_session := n_session w + 8, trace := trace w @ poll_events 8\<rparr>"
  proof
    assume h: "\<not> ?fin \<and> ?all \<and> ?l \<le> 0 \<and> (\<forall>j<8. polled e (n_session w + j) \<le> 0)"
    then have "probe e 8 ?l w = ((if (8::nat) = 0 then ?l else polled e (n_session w + 8 - 1), False),
      w\<lparr>n_session := n_session w + 8, trace := trace w @ poll_events 8\<rparr>)"
      by (intro probe_none) auto
    moreover have "polled e (n_session w + 8 - 1) \<le> 0"
    proof -
      have "(7::nat) < 8" by simp
      with h have "polled e (n_session w + 7) \<le> 0" by blast
      then show ?thesis by (simp add: add.commute)
    qed
    ultimately show "maybe_start_timer e sess w =
        w\<lparr>n_session := n_session w + 8, trace := trace w @ poll_events 8\<rparr>"
      using h by (simp add: maybe_start_timer_def Let_def)
  qed
  have E: "\<not> ?fin \<and> \<not> ?all \<longrightarrow> maybe_start_timer e sess w = w"
    by (auto simp add: maybe_start_timer_def Let_def)
  have F: "\<not> loadout_countdown_active (state w) \<longrightarrow>
        loadout_left0_ms (state (arm e pt l w)) = l
        \<and> loadout_countdown_active (state (arm e pt l w))
        \<and> Log_loadout_start (seq_val (state w) + 1) (mode_of pt l) l (timer_hz w)
             \<in> set (new_events w (arm e pt l w))"
  proof
    assume na: "\<not> loadout_countdown_active (state w)"
    from arm_inactive[OF na, of e pt l]
    obtain tk where st: "state (arm e pt l w) = armed_state e l w"
      and tr: "trace (arm e pt l w) = trace w @
          [Timer_lock_acquire, Log_loadout_start (seq_val (state w) + 1) (mode_of pt l) l (timer_hz w)]
          @ tk @ [Timer_lock_release]"
      by blast
    have "new_events w (arm e pt l w) = [Timer_lock_acquire, Log_loadout_start (seq_val (state w) + 1) (mode_of pt l) l (timer_hz w)]
          @ tk @ [Timer_lock_release]"
      using tr by (rule new_events_append)
    with st show "loadout_left0_ms (state (arm e pt l w)) = l
        \<and> loadout_countdown_active (state (arm e pt l w))
        \<and> Log_loadout_start (seq_val (state w) + 1) (mode_of pt l) l (timer_hz w)
             \<in> set (new_events w (arm e pt l w))"
      by simp
  qed
  have G: "loadout_countdown_active (state w) \<longrightarrow> state (arm e pt l w) = state w"
    by (simp add: arm_active)
  from A B C D E F G mode_of_positive[of l pt] show ?thesis by blast
qed

text \<open>
  Two runs outside the two-trigger rule. With one player visible and locked, phase-timer
  name \<open>BAN_PICK\<close> and 5000 ms left, the countdown starts at once, without a call of the
  session endpoint. With phase-timer name \<open>FINALIZATION\<close> and no time left, the first
  answer of the session endpoint with 3000 ms starts the countdown in mode \<open>finalization\<close>.
\<close>

theorem arming_decision_counterexample:
  "phase_timer_of (timer_of (timed_session ''BAN_PICK'' 5000)) \<noteq> ''FINALIZATION''
   \<and> \<not> left_ms_of (timer_of (timed_session ''BAN_PICK'' 5000)) \<le> 0
   \<and> \<not> loadout_countdown_active (state one_locked)
   \<and> loadout_countdown_active (state
        (maybe_start_timer (quiet_env (\<lambda>s. fmempty)) (timed_session ''BAN_PICK'' 5000) one_locked))
   \<and> trace (maybe_start_timer (quiet_env (\<lambda>s. fmempty)) (timed_session ''BAN_PICK'' 5000) one_locked)
       = [Timer_lock_acquire, Log_loadout_start 1 ''lcu-probe'' 5000 1000,
          Ticker_start 1 ''lcu-probe'', Timer_lock_release]
   \<and> left_ms_of (timer_of (timed_session ''FINALIZATION'' 0)) \<le> 0
   \<and> trace (maybe_start_timer (answering_env 0 (timed_session ''FINALIZATION'' 3000))
        (timed_session ''FINALIZATION'' 0) one_locked)
       = [Lcu_session_call, Timer_lock_acquire, Log_loadout_start 1 ''finalization'' 3000 1000,
          Ticker_start 1 ''finalization'', Timer_lock_release]"
  by code_simp

theorem arming_decision_witness:
  "(phase_timer_of (timer_of (timed_session ''FINALIZATION'' 5000)) = ''FINALIZATION''
      \<and> left_ms_of (timer_of (timed_session ''FINALIZATION'' 5000)) > 0)
   \<and> maybe_start_timer (quiet_env (\<lambda>s. fmempty)) (timed_session ''FINALIZATION'' 5000) idle_thread
       = arm (quiet_env (\<lambda>s. fmempty)) ''FINALIZATION'' 5000 idle_thread
   \<and> (\<not> (phase_timer_of (timer_of (timed_session ''BAN_PICK'' 5000)) = ''FINALIZATION''
            \<and> left_ms_of (timer_of (timed_session ''BAN_PICK'' 5000)) > 0)
       \<and> players_visible (state one_locked) > 0
       \<and> players_visible (state one_locked) \<le> locked_count (state one_locked)
       \<and> left_ms_of (timer_of (timed_session ''BAN_PICK'' 5000)) > 0)
   \<and> maybe_start_timer (quiet_env (\<lambda>s. fmempty)) (timed_session ''BAN_PICK'' 5000) one_locked
       = arm (quiet_env (\<lambda>s. fmempty)) ''BAN_PICK'' 5000 one_locked
   \<and> (left_ms_of (timer_of (timed_session ''BAN_PICK'' 0)) \<le> 0 \<and> (2::nat) < 8
       \<and> polled (answering_env 2 (timed_session ''BAN_PICK'' 3000)) (n_session one_locked + 0) \<le> 0
       \<and> polled (answering_env 2 (timed_session ''BAN_PICK'' 3000)) (n_session one_locked + 1) \<le> 0
       \<and> polled (answering_env 2 (timed_session ''BAN_PICK'' 3000)) (n_session one_locked + 2) > 0)
   \<and> maybe_start_timer (answering_env 2 (timed_session ''BAN_PICK'' 3000)) (timed_session ''BAN_PICK'' 0) one_locked
       = arm (answering_env 2 (timed_session ''BAN_PICK'' 3000)) ''BAN_PICK'' 3000
           (one_locked\<lparr>n_session := 3,
              trace := [Lcu_session_call, Sleep_60ms, Lcu_session_call, Sleep_60ms, Lcu_session_call]\<rparr>)
   \<and> maybe_start_timer (quiet_env (\<lambda>s. fmempty)) (timed_session ''BAN_PICK'' 0) one_locked
       = one_locked\<lparr>n_session := 8, trace := poll_events 8\<rparr>
   \<and> \<not> (players_visible (state idle_thread) > 0
          \<and> players_visible (state idle_thread) \<le> locked_count (state idle_thread))
   \<and> maybe_start_timer (quiet_env (\<lambda>s. fmempty)) (timed_session ''BAN_PICK'' 5000) idle_thread = idle_thread
   \<and> \<not> loadout_countdown_active (state one_locked)
   \<and> loadout_left0_ms (state (arm (quiet_env (\<lambda>s. fmempty)) ''BAN_PICK'' 5000 one_locked)) = 5000
   \<and> Log_loadout_start 1 ''lcu-probe'' 5000 1000
        \<in> set (new_events one_locked (arm (quiet_env (\<lambda>s. fmempty)) ''BAN_PICK'' 5000 one_locked))
   \<and> loadout_countdown_active (state (idle_thread\<lparr>state := busy_state\<rparr>))
   \<and> state (arm (quiet_env (\<lambda>s. fmempty)) ''FINALIZATION'' 5000 (idle_thread\<lparr>state := busy_state\<rparr>))
       = busy_state"
proof -
  let ?q = "quiet_env (\<lambda>s. fmempty)"
  let ?a = "answering_env 2 (timed_session ''BAN_PICK'' 3000)"
  have ptF: "phase_timer_of (timer_of (timed_session ''FINALIZATION'' 5000)) = ''FINALIZATION''"
    by code_simp
  have ptB: "\<And>l. phase_timer_of (timer_of (timed_session ''BAN_PICK'' l)) = ''BAN_PICK''"
    by (simp add: phase_timer_of_def timer_of_def timed_session_def upper_def upper_char_def)
  have lm: "\<And>p l. left_ms_of (timer_of (timed_session p l)) = l"
    by (simp add: left_ms_of_def timer_of_def timed_session_def)
  have one: "players_visible (state one_locked) = 1" "locked_count (state one_locked) = 1"
    "n_session one_locked = 0" "trace one_locked = []" "\<not> loadout_countdown_active (state one_locked)"
    "seq_val (state one_locked) = 0" "timer_hz one_locked = 1000"
    by (simp_all add: one_locked_def idle_thread_def idle_state_def locked_count_def seq_val_def
          fcard.rep_eq)
  have idle: "players_visible (state idle_thread) = 0"
    by (simp add: idle_thread_def idle_state_def)
  have busy: "loadout_countdown_active (state (idle_thread\<lparr>state := busy_state\<rparr>))"
    by (simp add: busy_state_def)
  have pq: "\<And>k. polled ?q k = 0"
    by (simp add: polled_def quiet_env_def left_ms_of_def timer_of_def empty_session_def empty_timer_def)
  have pa: "\<And>k. polled ?a k = (if k < 2 then 0 else 3000)"
    by (simp add: polled_def answering_env_def quiet_env_def left_ms_of_def timer_of_def
          empty_session_def empty_timer_def timed_session_def)
  have hA: "phase_timer_of (timer_of (timed_session ''FINALIZATION'' 5000)) = ''FINALIZATION''
      \<and> left_ms_of (timer_of (timed_session ''FINALIZATION'' 5000)) > 0"
    by (simp add: ptF lm)
  have hB: "\<not> (phase_timer_of (timer_of (timed_session ''BAN_PICK'' 5000)) = ''FINALIZATION''
            \<and> left_ms_of (timer_of (timed_session ''BAN_PICK'' 5000)) > 0)
       \<and> players_visible (state one_locked) > 0
       \<and> players_visible (state one_locked) \<le> locked_count (state one_locked)
       \<and> left_ms_of (timer_of (timed_session ''BAN_PICK'' 5000)) > 0"
    by (simp add: ptB lm one)
  have hC: "\<not> (phase_timer_of (timer_of (timed_session ''BAN_PICK'' 0)) = ''FINALIZATION''
            \<and> left_ms_of (timer_of (timed_session ''BAN_PICK'' 0)) > 0)
       \<and> players_visible (state one_locked) > 0
       \<and> players_visible (state one_locked) \<le> locked_count (state one_locked)
       \<and> left_ms_of (timer_of (timed_session ''BAN_PICK'' 0)) \<le> 0
       \<and> (2::nat) < 8 \<and> (\<forall>j<2. polled ?a (n_session one_locked + j) \<le> 0)
       \<and> polled ?a (n_session one_locked + 2) > 0"
    by (simp add: ptB lm one pa)
  have hD: "\<not> (phase_timer_of (timer_of (timed_session ''BAN_PICK'' 0)) = ''FINALIZATION''
            \<and> left_ms_of (timer_of (timed_session ''BAN_PICK'' 0)) > 0)
       \<and> players_visible (state one_locked) > 0
       \<and> players_visible (state one_locked) \<le> locked_count (state one_locked)
       \<and> left_ms_of (timer_of (timed_session ''BAN_PICK'' 0)) \<le> 0
       \<and> (\<forall>j<8. polled ?q (n_session one_locked + j) \<le> 0)"
    by (simp add: ptB lm one pq)
  have hE: "\<not> (phase_timer_of (timer_of (timed_session ''BAN_PICK'' 5000)) = ''FINALIZATION''
            \<and> left_ms_of (timer_of (timed_session ''BAN_PICK'' 5000)) > 0)
       \<and> \<not> (players_visible (state idle_thread) > 0
          \<and> players_visible (state idle_thread) \<le> locked_count (state idle_thread))"
    by (simp add: ptB idle)
  note A = arming_decision[where e = ?q and sess = "timed_session ''FINALIZATION'' 5000" and w = idle_thread]
  note B = arming_decision[where e = ?q and sess = "timed_session ''BAN_PICK'' 5000" and w = one_locked
      and pt = "''BAN_PICK''" and l = 5000]
  note C = arming_decision[where e = ?a and sess = "timed_session ''BAN_PICK'' 0" and w = one_locked and k = 2]
  note D = arming_decision[where e = ?q and sess = "timed_session ''BAN_PICK'' 0" and w = one_locked]
  note E = arming_decision[where e = ?q and sess = "timed_session ''BAN_PICK'' 5000" and w = idle_thread]
  note G = arming_decision[where e = ?q and w = "idle_thread\<lparr>state := busy_state\<rparr>"
      and pt = "''FINALIZATION''" and l = 5000]
  have m: "mode_of ''BAN_PICK'' 5000 = ''lcu-probe''" by (simp add: mode_of_def)
  have rA: "maybe_start_timer ?q (timed_session ''FINALIZATION'' 5000) idle_thread
       = arm ?q ''FINALIZATION'' 5000 idle_thread"
    using A hA by (simp add: lm)
  have rB: "maybe_start_timer ?q (timed_session ''BAN_PICK'' 5000) one_locked
       = arm ?q ''BAN_PICK'' 5000 one_locked"
    using B hB by (simp add: lm ptB)
  have rC: "maybe_start_timer ?a (timed_session ''BAN_PICK'' 0) one_locked
       = arm ?a ''BAN_PICK'' 3000
           (one_locked\<lparr>n_session := 3,
              trace := [Lcu_session_call, Sleep_60ms, Lcu_session_call, Sleep_60ms, Lcu_session_call]\<rparr>)"
  proof -
    have "maybe_start_timer ?a (timed_session ''BAN_PICK'' 0) one_locked
       = arm ?a (phase_timer_of (timer_of (timed_session ''BAN_PICK'' 0)))
           (polled ?a (n_session one_locked + 2))
           (one_locked\<lparr>n_session := n_session one_locked + Suc 2,
              trace := trace one_locked @ poll_events 2 @ [Lcu_session_call]\<rparr>)"
      using C hC by blast
    moreover have "poll_events 2 = [Lcu_session_call, Sleep_60ms, Lcu_session_call, Sleep_60ms]"
      by (simp add: poll_events_def numeral_2_eq_2)
    moreover have "polled ?a (n_session one_locked + 2) = 3000"
      by (simp add: pa one)
    moreover have "n_session one_locked + Suc 2 = 3"
      by (simp add: one)
    ultimately show ?thesis by (simp add: ptB one)
  qed
  have rD: "maybe_start_timer ?q (timed_session ''BAN_PICK'' 0) one_locked
       = one_locked\<lparr>n_session := 8, trace := poll_events 8\<rparr>"
    using D hD by (simp add: one)
  have rE: "maybe_start_timer ?q (timed_session ''BAN_PICK'' 5000) idle_thread = idle_thread"
    using E hE by blast
  have rF: "loadout_left0_ms (state (arm ?q ''BAN_PICK'' 5000 one_locked)) = 5000
     \<and> Log_loadout_start 1 ''lcu-probe'' 5000 1000 \<in> set (new_events one_locked (arm ?q ''BAN_PICK'' 5000 one_locked))"
    using B one by (simp add: m)
  have rG: "state (arm ?q ''FINALIZATION'' 5000 (idle_thread\<lparr>state := busy_state\<rparr>)) = busy_state"
    using G busy by simp
  show ?thesis
    using hA hB hC hD hE rA rB rC rD rE rF rG one busy by (simp add: pa)
qed

lemma init_from_lockfile_calls: "calls (init_from_lockfile m r) = calls r"
  by (simp add: init_from_lockfile_def Let_def split: option.splits sum.splits prod.splits)

lemma refresh_if_needed_calls:
  "calls (refresh_if_needed m force r) = calls r @ [Refresh_if_needed force]"
  by (simp add: refresh_if_needed_def Let_def init_from_lockfile_calls split: option.splits)

lemma attempt_run:
  "snd (attempt m path timeout r) =
     r\<lparr>tick := Suc (tick r), calls := calls r @ [Session_get (url_of (conn r) path)]\<rparr>"
  by (simp add: attempt_def Let_def url_of_def split: http_result.splits)

lemma attempt_raises:
  "fst (attempt m path timeout r) = Inl x \<Longrightarrow>
   x = RequestException \<or> (\<exists>t u s. http_get m t u s timeout = Raises x)"
  by (auto simp add: attempt_def Let_def split: http_result.splits if_splits)

lemma get_unfold:
  "get m path timeout r =
     (let r1 = (if \<not> ok (conn r) then refresh_if_needed m False r else r)
      in if \<not> ok (conn r1) then (Inr None, r1)
         else case fst (attempt m path timeout r1) of
                Inr v \<Rightarrow> (Inr v, snd (attempt m path timeout r1))
              | Inl x \<Rightarrow>
                  if x \<noteq> RequestException then (Inl x, snd (attempt m path timeout r1))
                  else
                    (let r3 = refresh_if_needed m True (snd (attempt m path timeout r1))
                     in if \<not> ok (conn r3) then (Inr None, r3)
                        else case fst (attempt m path timeout r3) of
                               Inr v \<Rightarrow> (Inr v, snd (attempt m path timeout r3))
                             | Inl y \<Rightarrow>
                                 if y \<noteq> RequestException then (Inl y, snd (attempt m path timeout r3))
                                 else (Inr None, snd (attempt m path timeout r3))))"
  by (simp add: get_def Let_def split: prod.splits sum.splits)

section \<open>One refresh and one retry\<close>

text \<open>
  Claim C1, as the code has it. Let the connection be enabled when the first request is
  made, and let that request raise RequestException. Then \<open>get\<close> makes exactly one forced
  refresh. When the refresh leaves the connection disabled, \<open>get\<close> gives \<open>None\<close> and makes
  no second request. When it leaves the connection enabled, \<open>get\<close> makes exactly one more
  request, which does not touch the connection; when that one raises RequestException too,
  \<open>get\<close> gives \<open>None\<close> and the connection is enabled as the refresh left it. \<open>get\<close> never
  lets a RequestException out, and raises nothing when the HTTP library raises nothing else.
\<close>

theorem get_retries_once:
  "(let r1 = (if \<not> ok (conn r) then refresh_if_needed m False r else r);
        r2 = snd (attempt m path timeout r1);
        r3 = refresh_if_needed m True r2;
        r4 = snd (attempt m path timeout r3)
    in (ok (conn r1) \<and> fst (attempt m path timeout r1) = Inl RequestException \<longrightarrow>
          calls r3 = calls r1 @ [Session_get (url_of (conn r1) path), Refresh_if_needed True]
          \<and> (\<not> ok (conn r3) \<longrightarrow> get m path timeout r = (Inr None, r3))
          \<and> (ok (conn r3) \<longrightarrow>
                snd (get m path timeout r) = r4
                \<and> calls r4 = calls r3 @ [Session_get (url_of (conn r3) path)]
                \<and> conn r4 = conn r3)
          \<and> (ok (conn r3) \<and> fst (attempt m path timeout r3) = Inl RequestException \<longrightarrow>
                get m path timeout r = (Inr None, r4) \<and> ok (conn r4))))
   \<and> (fst (get m path timeout r) = Inl x \<longrightarrow> x \<noteq> RequestException)
   \<and> ((\<forall>t u s. \<forall>y. http_get m t u s timeout = Raises y \<longrightarrow> y = RequestException) \<longrightarrow>
        (\<exists>v. fst (get m path timeout r) = Inr v))"
proof -
  define r1 where "r1 = (if \<not> ok (conn r) then refresh_if_needed m False r else r)"
  define r2 where "r2 = snd (attempt m path timeout r1)"
  define r3 where "r3 = refresh_if_needed m True r2"
  define r4 where "r4 = snd (attempt m path timeout r3)"
  have g: "get m path timeout r =
     (if \<not> ok (conn r1) then (Inr None, r1)
         else case fst (attempt m path timeout r1) of
                Inr v \<Rightarrow> (Inr v, r2)
              | Inl x \<Rightarrow>
                  if x \<noteq> RequestException then (Inl x, r2)
                  else
                    (if \<not> ok (conn r3) then (Inr None, r3)
                        else case fst (attempt m path timeout r3) of
                               Inr v \<Rightarrow> (Inr v, r4)
                             | Inl y \<Rightarrow>
                                 if y \<noteq> RequestException then (Inl y, r4)
                                 else (Inr None, r4)))"
    unfolding get_unfold[of m path timeout r] Let_def r1_def r2_def r3_def r4_def ..
  have c3: "calls r3 = calls r1 @ [Session_get (url_of (conn r1) path), Refresh_if_needed True]"
    by (simp add: r3_def r2_def refresh_if_needed_calls attempt_run)
  have c4: "calls r4 = calls r3 @ [Session_get (url_of (conn r3) path)]" "conn r4 = conn r3"
    by (simp_all add: r4_def attempt_run)
  have first: "ok (conn r1) \<and> fst (attempt m path timeout r1) = Inl RequestException \<longrightarrow>
          calls r3 = calls r1 @ [Session_get (url_of (conn r1) path), Refresh_if_needed True]
          \<and> (\<not> ok (conn r3) \<longrightarrow> get m path timeout r = (Inr None, r3))
          \<and> (ok (conn r3) \<longrightarrow>
                snd (get m path timeout r) = r4
                \<and> calls r4 = calls r3 @ [Session_get (url_of (conn r3) path)]
                \<and> conn r4 = conn r3)
          \<and> (ok (conn r3) \<and> fst (attempt m path timeout r3) = Inl RequestException \<longrightarrow>
                get m path timeout r = (Inr None, r4) \<and> ok (conn r4))"
    using c3 c4 by (auto simp add: g split: sum.splits)
  have second: "fst (get m path timeout r) = Inl x \<longrightarrow> x \<noteq> RequestException"
    by (auto simp add: g split: sum.splits if_splits)
  have third: "(\<forall>t u s. \<forall>y. http_get m t u s timeout = Raises y \<longrightarrow> y = RequestException) \<longrightarrow>
        (\<exists>v. fst (get m path timeout r) = Inr v)"
  proof
    assume h: "\<forall>t u s. \<forall>y. http_get m t u s timeout = Raises y \<longrightarrow> y = RequestException"
    have a: "fst (attempt m path timeout q) = Inl y \<Longrightarrow> y = RequestException" for q y
      using attempt_raises[of m path timeout q y] h by blast
    show "\<exists>v. fst (get m path timeout r) = Inr v"
      using a[of r1] a[of r3] by (auto simp add: g split: sum.splits)
  qed
  from first second third show ?thesis
    unfolding Let_def r1_def[symmetric] r2_def[symmetric] r3_def[symmetric] r4_def[symmetric]
    by blast
qed

lemma dead_client_start: "new_lcu dead_client None = \<lparr>conn = ready, tick = 5, calls = []\<rparr>"
  by code_simp

lemma vanishing_client_start: "new_lcu vanishing_client None = \<lparr>conn = ready, tick = 5, calls = []\<rparr>"
  by code_simp

lemma dead_client_attempt:
  "attempt dead_client ''/s'' 1000 \<lparr>conn = ready, tick = t, calls = cs\<rparr>
     = (Inl RequestException,
        \<lparr>conn = ready, tick = Suc t, calls = cs @ [Session_get ''https://127.0.0.1:7/s'']\<rparr>)"
  by (simp add: attempt_def dead_client_def ready_def)

lemma vanishing_client_attempt:
  "attempt vanishing_client ''/s'' 1000 \<lparr>conn = ready, tick = t, calls = cs\<rparr>
     = (Inl RequestException,
        \<lparr>conn = ready, tick = Suc t, calls = cs @ [Session_get ''https://127.0.0.1:7/s'']\<rparr>)"
  by (simp add: attempt_def dead_client_def vanishing_client_def ready_def)

lemma dead_client_refresh:
  "refresh_if_needed dead_client True \<lparr>conn = ready, tick = 6, calls = cs\<rparr>
     = \<lparr>conn = ready, tick = 14, calls = cs @ [Refresh_if_needed True]\<rparr>"
  by code_simp

lemma vanishing_client_refresh:
  "refresh_if_needed vanishing_client True \<lparr>conn = ready, tick = 6, calls = cs\<rparr>
     = \<lparr>conn = disable ready\<lparr>lf_path := None, lf_mtime := 0\<rparr>, tick = 7,
        calls = cs @ [Refresh_if_needed True]\<rparr>"
  by (simp add: refresh_if_needed_def vanishing_client_def dead_client_def Let_def)

lemma dead_client_get:
  "get dead_client ''/s'' 1000 (new_lcu dead_client None)
     = (Inr None, \<lparr>conn = ready, tick = 15,
          calls = [Session_get ''https://127.0.0.1:7/s'', Refresh_if_needed True,
                   Session_get ''https://127.0.0.1:7/s'']\<rparr>)"
proof -
  have ok: "ok ready" by (simp add: ready_def)
  have five: "Suc 5 = 6" "Suc 14 = 15" by simp_all
  show ?thesis
    unfolding dead_client_start get_def
    by (simp add: ok dead_client_attempt five dead_client_refresh)
qed

lemma vanishing_client_get:
  "get vanishing_client ''/s'' 1000 (new_lcu vanishing_client None)
     = (Inr None, \<lparr>conn = disable ready\<lparr>lf_path := None, lf_mtime := 0\<rparr>, tick = 7,
          calls = [Session_get ''https://127.0.0.1:7/s'', Refresh_if_needed True]\<rparr>)"
proof -
  have ok: "ok ready" by (simp add: ready_def)
  have off: "\<not> ok (disable ready\<lparr>lf_path := None, lf_mtime := 0\<rparr>)" by (simp add: disable_def)
  have five: "Suc 5 = 6" by simp
  show ?thesis
    unfolding vanishing_client_start get_def
    by (simp add: ok off vanishing_client_attempt five vanishing_client_refresh)
qed

text \<open>
  A client that answers no request, with its lock file in place: both requests fail, \<open>get\<close>
  gives \<open>None\<close>, and the connection is enabled afterwards. And one whose lock file is gone
  by the time of the forced refresh: there is no second request.
\<close>

theorem get_retries_once_counterexample:
  "fst (attempt dead_client ''/s'' 1000 (new_lcu dead_client None)) = Inl RequestException
   \<and> fst (attempt dead_client ''/s'' 1000
          (refresh_if_needed dead_client True
             (snd (attempt dead_client ''/s'' 1000 (new_lcu dead_client None)))))
       = Inl RequestException
   \<and> fst (get dead_client ''/s'' 1000 (new_lcu dead_client None)) = Inr None
   \<and> calls (snd (get dead_client ''/s'' 1000 (new_lcu dead_client None)))
       = [Session_get ''https://127.0.0.1:7/s'', Refresh_if_needed True,
          Session_get ''https://127.0.0.1:7/s'']
   \<and> ok (conn (snd (get dead_client ''/s'' 1000 (new_lcu dead_client None))))
   \<and> fst (attempt vanishing_client ''/s'' 1000 (new_lcu vanishing_client None)) = Inl RequestException
   \<and> calls (snd (get vanishing_client ''/s'' 1000 (new_lcu vanishing_client None)))
       = [Session_get ''https://127.0.0.1:7/s'', Refresh_if_needed True]"
proof -
  have ok: "ok ready" by (simp add: ready_def)
  have five: "Suc 5 = 6" by simp
  have a: "fst (attempt dead_client ''/s'' 1000 (new_lcu dead_client None)) = Inl RequestException"
    "fst (attempt dead_client ''/s'' 1000
          (refresh_if_needed dead_client True
             (snd (attempt dead_client ''/s'' 1000 (new_lcu dead_client None)))))
       = Inl RequestException"
    "fst (attempt vanishing_client ''/s'' 1000 (new_lcu vanishing_client None)) = Inl RequestException"
    by (simp_all add: dead_client_start vanishing_client_start dead_client_attempt
          vanishing_client_attempt five dead_client_refresh)
  have g: "fst (get dead_client ''/s'' 1000 (new_lcu dead_client None)) = Inr None"
    "calls (snd (get dead_client ''/s'' 1000 (new_lcu dead_client None)))
       = [Session_get ''https://127.0.0.1:7/s'', Refresh_if_needed True,
          Session_get ''https://127.0.0.1:7/s'']"
    "ok (conn (snd (get dead_client ''/s'' 1000 (new_lcu dead_client None))))"
    "calls (snd (get vanishing_client ''/s'' 1000 (new_lcu vanishing_client None)))
       = [Session_get ''https://127.0.0.1:7/s'', Refresh_if_needed True]"
    by (simp_all add: dead_client_get vanishing_client_get ok)
  from a g show ?thesis by blast
qed

lemma crashing_client_get:
  "fst (get crashing_client ''/s'' 1000 \<lparr>conn = ready, tick = 5, calls = []\<rparr>) = Inl ValueError"
  by (simp add: get_def attempt_def crashing_client_def dead_client_def ready_def Let_def)

theorem get_retries_once_witness:
  "ok (conn (new_lcu dead_client None))
   \<and> fst (attempt dead_client ''/s'' 1000 (new_lcu dead_client None)) = Inl RequestException
   \<and> ok (conn (refresh_if_needed dead_client True
          (snd (attempt dead_client ''/s'' 1000 (new_lcu dead_client None)))))
   \<and> fst (attempt dead_client ''/s'' 1000
          (refresh_if_needed dead_client True
             (snd (attempt dead_client ''/s'' 1000 (new_lcu dead_client None)))))
       = Inl RequestException
   \<and> get dead_client ''/s'' 1000 (new_lcu dead_client None)
       = (Inr None,
          snd (attempt dead_client ''/s'' 1000
                 (refresh_if_needed dead_client True
                    (snd (attempt dead_client ''/s'' 1000 (new_lcu dead_client None))))))
   \<and> ok (conn (snd (get dead_client ''/s'' 1000 (new_lcu dead_client None))))
   \<and> \<not> ok (conn (refresh_if_needed vanishing_client True
          (snd (attempt vanishing_client ''/s'' 1000 (new_lcu vanishing_client None)))))
   \<and> get vanishing_client ''/s'' 1000 (new_lcu vanishing_client None)
       = (Inr None,
          refresh_if_needed vanishing_client True
            (snd (attempt vanishing_client ''/s'' 1000 (new_lcu vanishing_client None))))
   \<and> (\<exists>v. fst (get dead_client ''/s'' 1000 (new_lcu dead_client None)) = Inr v)
   \<and> fst (get crashing_client ''/s'' 1000 \<lparr>conn = ready, tick = 5, calls = []\<rparr>) = Inl ValueError
   \<and> ValueError \<noteq> RequestException"
proof -
  let ?r = "new_lcu dead_client None" and ?v = "new_lcu vanishing_client None"
  have okr: "ok ready" by (simp add: ready_def)
  have five: "Suc 5 = 6" by simp
  have h1: "ok (conn ?r)" "ok (conn ?v)"
    by (simp_all add: dead_client_start vanishing_client_start okr)
  have h2: "fst (attempt dead_client ''/s'' 1000 ?r) = Inl RequestException"
    "fst (attempt vanishing_client ''/s'' 1000 ?v) = Inl RequestException"
    by (simp_all add: dead_client_start vanishing_client_start dead_client_attempt vanishing_client_attempt)
  have h3: "ok (conn (refresh_if_needed dead_client True (snd (attempt dead_client ''/s'' 1000 ?r))))"
    by (simp add: dead_client_start dead_client_attempt five dead_client_refresh okr)
  have h4: "fst (attempt dead_client ''/s'' 1000
          (refresh_if_needed dead_client True (snd (attempt dead_client ''/s'' 1000 ?r))))
       = Inl RequestException"
    by (simp add: dead_client_start dead_client_attempt five dead_client_refresh)
  have h5: "\<not> ok (conn (refresh_if_needed vanishing_client True
          (snd (attempt vanishing_client ''/s'' 1000 ?v))))"
    by (simp add: vanishing_client_start vanishing_client_attempt five vanishing_client_refresh
          disable_def)
  have h6: "\<forall>t u s. \<forall>y. http_get dead_client t u s 1000 = Raises y \<longrightarrow> y = RequestException"
    by (simp add: dead_client_def)
  note h7 = crashing_client_get
  note D = get_retries_once[where m = dead_client and r = ?r and path = "''/s''" and timeout = 1000,
      unfolded Let_def]
  note V = get_retries_once[where m = vanishing_client and r = ?v and path = "''/s''" and timeout = 1000,
      unfolded Let_def]
  note C = get_retries_once[where m = crashing_client and r = "\<lparr>conn = ready, tick = 5, calls = []\<rparr>"
      and path = "''/s''" and timeout = 1000 and x = ValueError]
  have r1: "(if \<not> ok (conn ?r) then refresh_if_needed dead_client False ?r else ?r) = ?r"
    "(if \<not> ok (conn ?v) then refresh_if_needed vanishing_client False ?v else ?v) = ?v"
    using h1 by simp_all
  have d1: "get dead_client ''/s'' 1000 ?r
       = (Inr None,
          snd (attempt dead_client ''/s'' 1000
                 (refresh_if_needed dead_client True (snd (attempt dead_client ''/s'' 1000 ?r)))))"
    and d2: "ok (conn (snd (attempt dead_client ''/s'' 1000
                 (refresh_if_needed dead_client True (snd (attempt dead_client ''/s'' 1000 ?r))))))"
    and d3: "\<exists>v. fst (get dead_client ''/s'' 1000 ?r) = Inr v"
    using D h1 h2 h3 h4 h6 unfolding r1 by blast+
  have v1: "get vanishing_client ''/s'' 1000 ?v
       = (Inr None,
          refresh_if_needed vanishing_client True (snd (attempt vanishing_client ''/s'' 1000 ?v)))"
    using V h1 h2 h5 unfolding r1 by blast
  have c1: "ValueError \<noteq> RequestException" using C h7 by blast
  have d4: "ok (conn (snd (get dead_client ''/s'' 1000 ?r)))"
    using d1 d2 by simp
  from h1 h2 h3 h4 h5 h7 d1 d3 d4 v1 c1 show ?thesis by blast
qed







































lemma found_offline:
  "found (candidates_for_champ (Some 103) (ahri_db, offline)) = Some [ahri_entry]"
  "found (candidates_for_champ (Some 7) (ahri_db, offline)) = Some [ahri_entry]"
  "found (candidates_for_champ None (ahri_db, offline)) = Some [ahri_entry]"
  by code_simp+






section \<open>Looking names up\<close>



lemma team_slots_or_empty: "team_slots team = {c. Some c \<in> cellId ` set (or_empty team)}"
  by (simp add: team_slots_def or_empty_def split: option.splits)

lemma roster_cells_slots: "roster_cells sess = roster_slots sess"
  by (auto simp add: roster_cells_set roster_slots_def team_slots_or_empty)

lemma round_slots_or_empty: "round_slots rnd = {c. Some c \<in> actorCellId ` set (or_empty rnd)}"
  by (simp add: round_slots_def or_empty_def split: option.splits)

lemma add_rounds_slots: "add_rounds (or_empty (actions sess)) {} = actor_slots sess"
  by (auto simp add: add_rounds_set actor_slots_def round_slots_or_empty or_empty_def
        split: option.splits)

lemma visible_cells_slots: "visible_cells sess = visible_slots sess"
  by (simp add: visible_cells_def Let_def visible_slots_def roster_cells_slots add_rounds_slots)

lemma finite_some_image: "finite {c. Some c \<in> f ` set xs}"
proof -
  have "{c. Some c \<in> f ` set xs} \<subseteq> the ` (f ` set xs)"
  proof (rule subsetI)
    fix c
    assume "c \<in> {c. Some c \<in> f ` set xs}"
    then have "Some c \<in> f ` set xs" by simp
    then have "the (Some c) \<in> the ` (f ` set xs)" by (rule imageI)
    then show "c \<in> the ` (f ` set xs)" by simp
  qed
  then show ?thesis by (rule finite_subset) simp
qed

lemma finite_visible_slots: "finite (visible_slots sess)"
  by (auto simp add: visible_slots_def roster_slots_def team_slots_def actor_slots_def
        round_slots_def finite_some_image split: option.splits)

lemma run_sessions_players_positive:
  "0 < players_visible (state w) \<Longrightarrow> 0 < players_visible (state (run_sessions e ss w))"
proof (induction ss arbitrary: w)
  case Nil
  then show ?case by (simp add: run_sessions_def)
next
  case (Cons s ss)
  have "0 < players_visible (state (session_update e s w))"
    using Cons.prems by (simp add: session_update_players)
  from Cons.IH[OF this] show ?case by (simp add: run_sessions_def)
qed

section \<open>The visible player count\<close>

text \<open>
  Claim C6. The set \<open>seen\<close> that a session update computes is the set of slot ids of the
  players of the two team rosters and, when there is none, the set of actor slot ids of the
  rounds of the action list; a missing or \<open>null\<close> roster, action list or round has no slot,
  and so has a player or action without a slot id. The stored count becomes the number of
  these slots when that number differs from it and the set is not empty, and stays as it was
  otherwise: a payload with no visible slot leaves the stored count alone, and a count that
  is positive stays positive over every sequence of session updates.
\<close>

theorem visible_count_never_zeroed:
  "visible_cells sess = visible_slots sess
   \<and> visible_slots sess = (if roster_slots sess = {} then actor_slots sess else roster_slots sess)
   \<and> roster_slots sess =
       (case myTeam sess of None \<Rightarrow> {} | Some ps \<Rightarrow> {c. Some c \<in> cellId ` set ps})
       \<union> (case theirTeam sess of None \<Rightarrow> {} | Some ps \<Rightarrow> {c. Some c \<in> cellId ` set ps})
   \<and> actor_slots sess =
       (case actions sess of
          None \<Rightarrow> {}
        | Some rnds \<Rightarrow>
            \<Union> ((\<lambda>rnd. case rnd of None \<Rightarrow> {} | Some acts \<Rightarrow> {c. Some c \<in> actorCellId ` set acts})
                 ` set rnds))
   \<and> players_visible (state (session_update e sess w)) =
       (if int (card (visible_slots sess)) \<noteq> players_visible (state w) \<and> visible_slots sess \<noteq> {}
        then int (card (visible_slots sess)) else players_visible (state w))
   \<and> (visible_slots sess = {} \<longrightarrow>
        players_visible (state (session_update e sess w)) = players_visible (state w))
   \<and> (0 < players_visible (state w) \<longrightarrow> 0 < players_visible (state (run_sessions e ss w)))"
proof -
  have nz: "(0 < int (card (visible_slots sess))) = (visible_slots sess \<noteq> {})"
    using finite_visible_slots[of sess] by (simp add: card_gt_0_iff)
  have a: "visible_cells sess = visible_slots sess" by (rule visible_cells_slots)
  have b: "visible_slots sess = (if roster_slots sess = {} then actor_slots sess else roster_slots sess)"
    by (simp add: visible_slots_def)
  have c: "roster_slots sess =
       (case myTeam sess of None \<Rightarrow> {} | Some ps \<Rightarrow> {c. Some c \<in> cellId ` set ps})
       \<union> (case theirTeam sess of None \<Rightarrow> {} | Some ps \<Rightarrow> {c. Some c \<in> cellId ` set ps})"
    by (simp add: roster_slots_def team_slots_def)
  have d: "actor_slots sess =
       (case actions sess of
          None \<Rightarrow> {}
        | Some rnds \<Rightarrow>
            \<Union> ((\<lambda>rnd. case rnd of None \<Rightarrow> {} | Some acts \<Rightarrow> {c. Some c \<in> actorCellId ` set acts})
                 ` set rnds))"
    by (cases "actions sess") (simp_all add: actor_slots_def round_slots_def[abs_def])
  have f: "players_visible (state (session_update e sess w)) =
       (if int (card (visible_slots sess)) \<noteq> players_visible (state w) \<and> visible_slots sess \<noteq> {}
        then int (card (visible_slots sess)) else players_visible (state w))"
    using session_update_players[of e sess w] unfolding a nz by simp
  have g: "visible_slots sess = {} \<longrightarrow>
        players_visible (state (session_update e sess w)) = players_visible (state w)"
    using f by simp
  have h: "0 < players_visible (state w) \<longrightarrow> 0 < players_visible (state (run_sessions e ss w))"
    using run_sessions_players_positive[of w e ss] by blast
  show ?thesis
    by (intro conjI) (fact a b c d f g h)+
qed

lemma example_slots:
  "visible_slots two_rosters = {0, 1, 5}"
  "visible_slots actions_only = {4, 7}"
  "visible_slots empty_session = {}"
  by (auto simp add: visible_slots_def roster_slots_def team_slots_def actor_slots_def
        round_slots_def two_rosters_def actions_only_def empty_session_def)

theorem visible_count_never_zeroed_witness:
  "visible_cells two_rosters = {0, 1, 5}
   \<and> players_visible (state idle_thread) = 0
   \<and> players_visible (state (session_update (quiet_env (\<lambda>s. fmempty)) two_rosters idle_thread)) = 3
   \<and> visible_cells actions_only = {4, 7}
   \<and> players_visible (state (session_update (quiet_env (\<lambda>s. fmempty)) actions_only
        (session_update (quiet_env (\<lambda>s. fmempty)) two_rosters idle_thread))) = 2
   \<and> visible_cells empty_session = {}
   \<and> players_visible (state (session_update (quiet_env (\<lambda>s. fmempty)) empty_session
        (session_update (quiet_env (\<lambda>s. fmempty)) two_rosters idle_thread))) = 3
   \<and> 0 < players_visible (state (run_sessions (quiet_env (\<lambda>s. fmempty)) [empty_session, empty_session]
        (session_update (quiet_env (\<lambda>s. fmempty)) two_rosters idle_thread)))"
proof -
  let ?e = "quiet_env (\<lambda>s. fmempty)"
  let ?w1 = "session_update ?e two_rosters idle_thread"
  have p0: "players_visible (state idle_thread) = 0"
    by (simp add: idle_thread_def idle_state_def)
  have c1: "visible_cells two_rosters = {0, 1, 5}"
    using visible_count_never_zeroed[of two_rosters ?e idle_thread, THEN conjunct1]
    by (simp add: example_slots)
  have c2: "players_visible (state ?w1) = 3"
    using visible_count_never_zeroed[of two_rosters ?e idle_thread]
    by (simp add: example_slots p0)
  have c3: "visible_cells actions_only = {4, 7}"
    using visible_count_never_zeroed[of actions_only ?e ?w1, THEN conjunct1]
    by (simp add: example_slots)
  have c4: "players_visible (state (session_update ?e actions_only ?w1)) = 2"
    using visible_count_never_zeroed[of actions_only ?e ?w1] c2
    by (simp add: example_slots)
  have c5: "visible_cells empty_session = {}"
    using visible_count_never_zeroed[of empty_session ?e ?w1, THEN conjunct1]
    by (simp add: example_slots)
  have c6: "players_visible (state (session_update ?e empty_session ?w1)) = 3"
    using visible_count_never_zeroed[of empty_session ?e ?w1] c2
    by (simp add: example_slots)
  have c7: "0 < players_visible (state (run_sessions ?e [empty_session, empty_session] ?w1))"
    using visible_count_never_zeroed[of two_rosters ?e ?w1 "[empty_session, empty_session]"] c2
    by simp
  show ?thesis
    using p0 c1 c2 c3 c4 c5 c6 c7 by blast
qed

lemma lock_step_Done [simp]: "lock_step e pt l (Done, w) = (Done, w)"
  by (simp add: lock_step_def)

lemma lock_steps_Done [simp]: "(lock_step e pt l ^^ k) (Done, w) = (Done, w)"
  by (induction k) simp_all

lemma lock_step_not_acquire: "fst (lock_step e pt l c) \<noteq> At_acquire"
  by (cases c) (simp add: lock_step_def split: pc.splits)

lemma lock_step_to_Done: "fst (lock_step e pt l (p, w)) = Done \<Longrightarrow> p = At_release \<or> p = Done"
  by (simp add: lock_step_def split: pc.splits if_splits)

lemma lock_step_from_release: "fst (lock_step e pt l (At_release, w)) = Done"
  by (simp add: lock_step_def)

lemma arm_by_steps: "(lock_step e pt l ^^ 10) (At_acquire, w) = (Done, arm e pt l w)"
proof (cases "loadout_countdown_active (state w)")
  case True
  have "(lock_step e pt l ^^ 3) (At_acquire, w) = (Done, arm e pt l w)"
    using True by (simp add: eval_nat_numeral lock_step_def arm_def Let_def)
  then have "(lock_step e pt l ^^ (7 + 3)) (At_acquire, w) = (Done, arm e pt l w)"
    unfolding funpow_add by simp
  then show ?thesis by simp
next
  case False
  define w3 where "w3 =
     emit (Log_loadout_start (seq_val (state w) + 1) (mode_of pt l) l (timer_hz w))
       ((emit Timer_lock_acquire w)
          \<lparr>state := (state w)\<lparr>loadout_left0_ms := l, loadout_t0 := monotonic e (n_monotonic w),
                              ticker_seq := Some (seq_val (state w) + 1),
                              current_ticker := seq_val (state w) + 1,
                              loadout_countdown_active := True\<rparr>,
            n_monotonic := Suc (n_monotonic w)\<rparr>)"
  have "(lock_step e pt l ^^ 8) (At_acquire, w) = (At_ticker, w3)"
    using False
    apply (simp add: eval_nat_numeral lock_step_def w3_def seq_val_def)
    apply (rule thread.equality)
    apply (simp_all add: emit_def)
    done
  then have "(lock_step e pt l ^^ (2 + 8)) (At_acquire, w)
      = (Done, emit Timer_lock_release (start_ticker e (mode_of pt l) w3))"
    unfolding funpow_add by (simp add: eval_nat_numeral lock_step_def)
  moreover have "arm e pt l w = emit Timer_lock_release (start_ticker e (mode_of pt l) w3)"
    using False by (simp add: arm_def Let_def w3_def seq_val_def)
  ultimately show ?thesis by simp
qed

lemma other_simps [simp]:
  "other i \<noteq> i" "i \<noteq> other i" "other (other i) = i"
  "other Caller_a = Caller_b" "other Caller_b = Caller_a"
  by (cases i; simp add: other_def)+

lemma caller_cases: "j = i \<or> j = other i"
  by (cases i; cases j; simp)

lemma steps_to_Done:
  assumes "(lock_step e pt l ^^ k) (At_acquire, w0) = (Done, w)"
  shows "w = arm e pt l w0"
proof -
  have "(lock_step e pt l ^^ (k + 10)) (At_acquire, w0) = (Done, arm e pt l w0)"
    unfolding funpow_add by (simp add: arm_by_steps)
  moreover have "(lock_step e pt l ^^ (10 + k)) (At_acquire, w0) = (Done, w)"
    unfolding funpow_add by (simp add: assms)
  ultimately show ?thesis by (simp add: add.commute)
qed

lemma thread_state_same [simp]: "w\<lparr>state := state w\<rparr> = (w :: thread)"
  by simp

lemma step_blocked:
  "pc_of c j = Done \<or> (pc_of c j = At_acquire \<and> owner c \<noteq> None) \<Longrightarrow> sys_step e args j c = c"
  by (simp add: sys_step_def)

lemma step_acquire:
  assumes "pc_of c i = At_acquire" and "owner c = None"
  shows "running e args i ((locals c i)\<lparr>state := shared c\<rparr>) (sys_step e args i c)"
    and "pc_of (sys_step e args i c) (other i) = pc_of c (other i)"
    and "locals (sys_step e args i c) (other i) = locals c (other i)"
proof -
  let ?w0 = "(locals c i)\<lparr>state := shared c\<rparr>"
  let ?c = "sys_step e args i c"
  have s: "?c = \<lparr>shared = shared c, owner = Some i, pc_of = (pc_of c)(i := At_check),
                 locals = (locals c)(i := emit Timer_lock_acquire ?w0)\<rparr>"
    using assms by (simp add: sys_step_def lock_step_def)
  have "(pc_of ?c i, locals ?c i) = (lock_step e (fst (args i)) (snd (args i)) ^^ Suc 0) (At_acquire, ?w0)"
    unfolding s by (simp add: lock_step_def)
  moreover have "pc_of ?c i \<noteq> Done" "shared ?c = state (locals ?c i)" "owner ?c = Some i"
    unfolding s by simp_all
  ultimately show "running e args i ?w0 ?c"
    unfolding running_def by blast
  show "pc_of ?c (other i) = pc_of c (other i)" "locals ?c (other i) = locals c (other i)"
    unfolding s by simp_all
qed

lemma step_running:
  assumes "running e args i w0 c"
  shows "running e args i w0 (sys_step e args i c)
         \<or> (left_block e args i w0 (sys_step e args i c) \<and> owner (sys_step e args i c) = None
            \<and> shared (sys_step e args i c) = state (locals (sys_step e args i c) i))"
    and "pc_of (sys_step e args i c) (other i) = pc_of c (other i)"
    and "locals (sys_step e args i c) (other i) = locals c (other i)"
proof -
  let ?f = "lock_step e (fst (args i)) (snd (args i))"
  let ?c = "sys_step e args i c"
  from assms obtain k where k: "(pc_of c i, locals c i) = (?f ^^ Suc k) (At_acquire, w0)"
    and nd: "pc_of c i \<noteq> Done" and sh: "shared c = state (locals c i)" and ow: "owner c = Some i"
    unfolding running_def by blast
  have na: "pc_of c i \<noteq> At_acquire"
  proof -
    have "pc_of c i = fst (?f ((?f ^^ k) (At_acquire, w0)))"
      using k by (metis fst_conv funpow.simps(2) o_apply)
    then show ?thesis using lock_step_not_acquire by metis
  qed
  obtain p w where pw: "?f (pc_of c i, locals c i) = (p, w)" by (metis prod.exhaust)
  have view: "(locals c i)\<lparr>state := shared c\<rparr> = locals c i" by (simp add: sh)
  have s: "?c = \<lparr>shared = state w,
                 owner = (if pc_of c i = At_release then None else owner c),
                 pc_of = (pc_of c)(i := p), locals = (locals c)(i := w)\<rparr>"
    using nd na by (simp add: sys_step_def view pw)
  have k2: "(p, w) = (?f ^^ Suc (Suc k)) (At_acquire, w0)"
    using k pw by simp
  show "pc_of ?c (other i) = pc_of c (other i)" "locals ?c (other i) = locals c (other i)"
    unfolding s by simp_all
  show "running e args i w0 ?c
         \<or> (left_block e args i w0 ?c \<and> owner ?c = None \<and> shared ?c = state (locals ?c i))"
  proof (cases "p = Done")
    case True
    then have "fst (?f (pc_of c i, locals c i)) = Done" using pw by simp
    from lock_step_to_Done[OF this] nd have rel: "pc_of c i = At_release" by simp
    from k2 True have "(?f ^^ Suc (Suc k)) (At_acquire, w0) = (Done, w)" by simp
    then have "w = arm e (fst (args i)) (snd (args i)) w0" by (rule steps_to_Done)
    then have "left_block e args i w0 ?c \<and> owner ?c = None \<and> shared ?c = state (locals ?c i)"
      unfolding s using True rel by (simp add: left_block_def arm_of_def)
    then show ?thesis ..
  next
    case False
    have nr: "pc_of c i \<noteq> At_release"
    proof
      assume "pc_of c i = At_release"
      then have "fst (?f (pc_of c i, locals c i)) = Done" by (simp add: lock_step_def)
      with pw False show False by simp
    qed
    have "(pc_of ?c i, locals ?c i) = (?f ^^ Suc (Suc k)) (At_acquire, w0)"
      unfolding s using k2 by simp
    moreover have "pc_of ?c i \<noteq> Done" "shared ?c = state (locals ?c i)" "owner ?c = Some i"
      unfolding s using False nr ow by simp_all
    ultimately have "running e args i w0 ?c" unfolding running_def by blast
    then show ?thesis ..
  qed
qed

lemma serial_fields [simp]:
  "owner (serial e args i s ws) = None"
  "pc_of (serial e args i s ws) k = Done"
  "locals (serial e args i s ws) i = arm_of e args i ((ws i)\<lparr>state := s\<rparr>)"
  "locals (serial e args i s ws) (other i) =
     arm_of e args (other i)
       ((ws (other i))\<lparr>state := state (arm_of e args i ((ws i)\<lparr>state := s\<rparr>))\<rparr>)"
  "shared (serial e args i s ws) = state (locals (serial e args i s ws) (other i))"
  by (simp_all add: serial_def Let_def)

lemma serial_eq:
  assumes "left_block e args i ((ws i)\<lparr>state := s\<rparr>) c"
    and "left_block e args (other i) ((ws (other i))\<lparr>state := state (locals c i)\<rparr>) c"
    and "owner c = None" and "shared c = state (locals c (other i))"
  shows "c = serial e args i s ws"
proof (rule system.equality)
  from assms(1) have p1: "pc_of c i = Done" and l1: "locals c i = arm_of e args i ((ws i)\<lparr>state := s\<rparr>)"
    by (simp_all add: left_block_def)
  from assms(2) have p2: "pc_of c (other i) = Done"
    and l2: "locals c (other i) =
      arm_of e args (other i) ((ws (other i))\<lparr>state := state (locals c i)\<rparr>)"
    by (simp_all add: left_block_def)
  show "shared c = shared (serial e args i s ws)"
    using assms(4) l1 l2 by simp
  show "owner c = owner (serial e args i s ws)" using assms(3) by simp
  show "pc_of c = pc_of (serial e args i s ws)"
  proof
    fix k show "pc_of c k = pc_of (serial e args i s ws) k"
      using caller_cases[of k i] p1 p2 by auto
  qed
  show "locals c = locals (serial e args i s ws)"
  proof
    fix k show "locals c k = locals (serial e args i s ws) k"
      using caller_cases[of k i] l1 l2 by auto
  qed
  show "system.more c = system.more (serial e args i s ws)" by simp
qed

lemma reachable_start: "reachable e args s ws (start s ws)"
  by (simp add: reachable_def)

lemma reachable_step:
  assumes "reachable e args s ws c"
  shows "reachable e args s ws (sys_step e args j c)"
proof -
  let ?c = "sys_step e args j c"
  from assms consider
      (init) "c = start s ws"
    | (first) i where "running e args i ((ws i)\<lparr>state := s\<rparr>) c" "waiting ws (other i) c"
    | (between) i where "left_block e args i ((ws i)\<lparr>state := s\<rparr>) c" "owner c = None"
        "shared c = state (locals c i)" "waiting ws (other i) c"
    | (second) i where "left_block e args i ((ws i)\<lparr>state := s\<rparr>) c"
        "running e args (other i) ((ws (other i))\<lparr>state := state (locals c i)\<rparr>) c"
    | (final) i where "c = serial e args i s ws"
    unfolding reachable_def by blast
  then show ?thesis
  proof cases
    case init
    have a: "pc_of c j = At_acquire" "owner c = None" by (simp_all add: init start_def)
    have w0: "(locals c j)\<lparr>state := shared c\<rparr> = (ws j)\<lparr>state := s\<rparr>" by (simp add: init start_def)
    from step_acquire[OF a, of e args] have "running e args j ((ws j)\<lparr>state := s\<rparr>) ?c"
      and "waiting ws (other j) ?c"
      unfolding w0 by (simp_all add: waiting_def init start_def)
    then show ?thesis unfolding reachable_def by blast
  next
    case (first i)
    from caller_cases[of j i] show ?thesis
    proof
      assume j: "j = i"
      from step_running[OF first(1)] first(2)
      have "running e args i ((ws i)\<lparr>state := s\<rparr>) ?c
         \<or> (left_block e args i ((ws i)\<lparr>state := s\<rparr>) ?c \<and> owner ?c = None
            \<and> shared ?c = state (locals ?c i))"
        and "waiting ws (other i) ?c"
        unfolding j by (simp_all add: waiting_def)
      then show ?thesis unfolding reachable_def by blast
    next
      assume j: "j = other i"
      from first have "pc_of c j = At_acquire \<and> owner c \<noteq> None"
        unfolding j by (simp add: waiting_def running_def)
      then have "?c = c" by (simp add: step_blocked)
      with assms show ?thesis by simp
    qed
  next
    case (between i)
    from caller_cases[of j i] show ?thesis
    proof
      assume j: "j = i"
      from between(1) have "pc_of c j = Done" unfolding j by (simp add: left_block_def)
      then have "?c = c" by (simp add: step_blocked)
      with assms show ?thesis by simp
    next
      assume j: "j = other i"
      have a: "pc_of c (other i) = At_acquire" "owner c = None"
        using between by (simp_all add: waiting_def)
      have w0: "(locals c (other i))\<lparr>state := shared c\<rparr> = (ws (other i))\<lparr>state := state (locals c i)\<rparr>"
        using between by (simp add: waiting_def)
      from step_acquire[OF a, of e args]
      have r: "running e args (other i) ((ws (other i))\<lparr>state := state (locals c i)\<rparr>) ?c"
        and p: "pc_of ?c i = pc_of c i" and l: "locals ?c i = locals c i"
        unfolding w0 j by simp_all
      from between(1) p l have "left_block e args i ((ws i)\<lparr>state := s\<rparr>) ?c"
        by (simp add: left_block_def)
      moreover from r l have "running e args (other i) ((ws (other i))\<lparr>state := state (locals ?c i)\<rparr>) ?c"
        by simp
      ultimately show ?thesis unfolding reachable_def by blast
    qed
  next
    case (second i)
    from caller_cases[of j i] show ?thesis
    proof
      assume j: "j = i"
      from second(1) have "pc_of c j = Done" unfolding j by (simp add: left_block_def)
      then have "?c = c" by (simp add: step_blocked)
      with assms show ?thesis by simp
    next
      assume j: "j = other i"
      from step_running[OF second(2)]
      have r: "running e args (other i) ((ws (other i))\<lparr>state := state (locals c i)\<rparr>) ?c
         \<or> (left_block e args (other i) ((ws (other i))\<lparr>state := state (locals c i)\<rparr>) ?c
            \<and> owner ?c = None \<and> shared ?c = state (locals ?c (other i)))"
        and p: "pc_of ?c i = pc_of c i" and l: "locals ?c i = locals c i"
        unfolding j by simp_all
      from second(1) p l have lb: "left_block e args i ((ws i)\<lparr>state := s\<rparr>) ?c"
        by (simp add: left_block_def)
      from r show ?thesis
      proof
        assume "running e args (other i) ((ws (other i))\<lparr>state := state (locals c i)\<rparr>) ?c"
        with l have "running e args (other i) ((ws (other i))\<lparr>state := state (locals ?c i)\<rparr>) ?c"
          by simp
        with lb show ?thesis unfolding reachable_def by blast
      next
        assume h: "left_block e args (other i) ((ws (other i))\<lparr>state := state (locals c i)\<rparr>) ?c
            \<and> owner ?c = None \<and> shared ?c = state (locals ?c (other i))"
        with l have "left_block e args (other i) ((ws (other i))\<lparr>state := state (locals ?c i)\<rparr>) ?c"
          by simp
        with lb h have "?c = serial e args i s ws" by (intro serial_eq) simp_all
        then show ?thesis unfolding reachable_def by blast
      qed
    qed
  next
    case (final i)
    have "pc_of c j = Done" by (simp add: final)
    then have "?c = c" by (simp add: step_blocked)
    with assms show ?thesis by simp
  qed
qed

lemma reachable_run:
  "reachable e args s ws c \<Longrightarrow> reachable e args s ws (run_system e args sched c)"
proof (induction sched arbitrary: c)
  case Nil
  then show ?case by (simp add: run_system_def)
next
  case (Cons j sched)
  from Cons.IH[OF reachable_step[OF Cons.prems, of j]] show ?case
    by (simp add: run_system_def)
qed

lemma running_in_block: "running e args i w0 c \<Longrightarrow> in_block (pc_of c i) \<and> owner c = Some i"
proof -
  assume r: "running e args i w0 c"
  then obtain k where k: "(pc_of c i, locals c i)
       = (lock_step e (fst (args i)) (snd (args i)) ^^ Suc k) (At_acquire, w0)"
    and nd: "pc_of c i \<noteq> Done" and ow: "owner c = Some i"
    unfolding running_def by blast
  have "pc_of c i = fst (lock_step e (fst (args i)) (snd (args i))
            ((lock_step e (fst (args i)) (snd (args i)) ^^ k) (At_acquire, w0)))"
    using k by (metis fst_conv funpow.simps(2) o_apply)
  then have "pc_of c i \<noteq> At_acquire" using lock_step_not_acquire by metis
  with nd ow show ?thesis by (simp add: in_block_def)
qed

lemma reachable_exclusion:
  assumes "reachable e args s ws c"
  shows "(in_block (pc_of c i) \<longleftrightarrow> owner c = Some i)"
proof -
  from assms consider
      (init) "c = start s ws"
    | (first) k where "running e args k ((ws k)\<lparr>state := s\<rparr>) c" "waiting ws (other k) c"
    | (between) k where "left_block e args k ((ws k)\<lparr>state := s\<rparr>) c" "owner c = None"
        "shared c = state (locals c k)" "waiting ws (other k) c"
    | (second) k where "left_block e args k ((ws k)\<lparr>state := s\<rparr>) c"
        "running e args (other k) ((ws (other k))\<lparr>state := state (locals c k)\<rparr>) c"
    | (final) k where "c = serial e args k s ws"
    unfolding reachable_def by blast
  then show ?thesis
  proof cases
    case init
    then show ?thesis by (simp add: start_def in_block_def)
  next
    case (first k)
    from running_in_block[OF first(1)] first(2) caller_cases[of i k] show ?thesis
      by (auto simp add: waiting_def in_block_def)
  next
    case (between k)
    with caller_cases[of i k] show ?thesis
      by (auto simp add: waiting_def left_block_def in_block_def)
  next
    case (second k)
    from running_in_block[OF second(2)] second(1) caller_cases[of i k] show ?thesis
      by (auto simp add: left_block_def in_block_def)
  next
    case (final k)
    then show ?thesis by (simp add: in_block_def)
  qed
qed

lemma reachable_finished:
  assumes "reachable e args s ws c" and "pc_of c Caller_a = Done" and "pc_of c Caller_b = Done"
  shows "c = serial e args Caller_a s ws \<or> c = serial e args Caller_b s ws"
proof -
  have d: "pc_of c k = Done" for k using assms(2,3) by (cases k) simp_all
  from assms(1) consider
      (init) "c = start s ws"
    | (first) k where "running e args k ((ws k)\<lparr>state := s\<rparr>) c" "waiting ws (other k) c"
    | (between) k where "left_block e args k ((ws k)\<lparr>state := s\<rparr>) c" "owner c = None"
        "shared c = state (locals c k)" "waiting ws (other k) c"
    | (second) k where "left_block e args k ((ws k)\<lparr>state := s\<rparr>) c"
        "running e args (other k) ((ws (other k))\<lparr>state := state (locals c k)\<rparr>) c"
    | (final) k where "c = serial e args k s ws"
    unfolding reachable_def by blast
  then show ?thesis
  proof cases
    case init
    with d[of Caller_a] show ?thesis by (simp add: start_def)
  next
    case (first k)
    with d[of k] show ?thesis by (simp add: running_def)
  next
    case (between k)
    with d[of "other k"] show ?thesis by (simp add: waiting_def)
  next
    case (second k)
    with d[of "other k"] show ?thesis by (simp add: running_def)
  next
    case (final k)
    then show ?thesis by (cases k) simp_all
  qed
qed

lemma steps_left_Done: "steps_left p = 0 \<Longrightarrow> p = Done"
  by (cases p) simp_all

lemma lock_step_progress: "p \<noteq> Done \<Longrightarrow> steps_left (fst (lock_step e pt l (p, w))) < steps_left p"
  by (cases p) (simp_all add: lock_step_def)

lemma sys_step_other:
  "pc_of (sys_step e args i c) (other i) = pc_of c (other i)"
  by (simp add: sys_step_def split: prod.splits)

lemma sys_step_owner:
  "owner c \<noteq> Some (other i) \<Longrightarrow> owner (sys_step e args i c) \<noteq> Some (other i)"
  by (simp add: sys_step_def split: prod.splits)

lemma sys_step_progress:
  assumes "pc_of c i \<noteq> Done" and "pc_of c i = At_acquire \<longrightarrow> owner c = None"
  shows "steps_left (pc_of (sys_step e args i c) i) < steps_left (pc_of c i)"
proof -
  obtain p w where pw: "lock_step e (fst (args i)) (snd (args i))
        (pc_of c i, (locals c i)\<lparr>state := shared c\<rparr>) = (p, w)"
    by (metis prod.exhaust)
  from lock_step_progress[OF assms(1), of e "fst (args i)" "snd (args i)" "(locals c i)\<lparr>state := shared c\<rparr>"]
  have "steps_left p < steps_left (pc_of c i)" by (simp add: pw)
  moreover have "pc_of (sys_step e args i c) i = p"
    using assms by (auto simp add: sys_step_def pw)
  ultimately show ?thesis by simp
qed

lemma run_system_append:
  "run_system e args (xs @ ys) c = run_system e args ys (run_system e args xs c)"
  by (simp add: run_system_def)

lemma run_blocked:
  "pc_of c i = Done \<or> (pc_of c i = At_acquire \<and> owner c \<noteq> None) \<Longrightarrow>
   run_system e args (replicate n i) c = c"
proof (induction n)
  case 0
  show ?case by (simp add: run_system_def)
next
  case (Suc n)
  have "sys_step e args i c = c" using Suc.prems by (rule step_blocked)
  with Suc.IH[OF Suc.prems] show ?case by (simp add: run_system_def)
qed

lemma run_other:
  "pc_of (run_system e args (replicate n i) c) (other i) = pc_of c (other i)"
proof (induction n arbitrary: c)
  case 0
  show ?case by (simp add: run_system_def)
next
  case (Suc n)
  have "run_system e args (replicate (Suc n) i) c
      = run_system e args (replicate n i) (sys_step e args i c)"
    by (simp add: run_system_def)
  with Suc.IH[of "sys_step e args i c"] show ?case by (simp add: sys_step_other)
qed

lemma run_to_Done:
  assumes "reachable e args s ws c" and "owner c \<noteq> Some (other i)" and "steps_left (pc_of c i) \<le> n"
  shows "pc_of (run_system e args (replicate n i) c) i = Done
         \<and> owner (run_system e args (replicate n i) c) = None"
  using assms
proof (induction n arbitrary: c)
  case 0
  then have d: "pc_of c i = Done" by (simp add: steps_left_Done)
  then have "\<not> in_block (pc_of c i)" by (simp add: in_block_def)
  with reachable_exclusion[OF 0(1), of i] have "owner c \<noteq> Some i" by simp
  with 0(2) caller_cases have "owner c = None" by (metis not_Some_eq)
  with d show ?case by (simp add: run_system_def)
next
  case (Suc n)
  let ?c = "sys_step e args i c"
  have r: "run_system e args (replicate (Suc n) i) c = run_system e args (replicate n i) ?c"
    by (simp add: run_system_def)
  have re: "reachable e args s ws ?c" using Suc.prems(1) by (rule reachable_step)
  have ow: "owner ?c \<noteq> Some (other i)" using Suc.prems(2) by (rule sys_step_owner)
  have "steps_left (pc_of ?c i) \<le> n"
  proof (cases "pc_of c i = Done")
    case True
    then have "?c = c" by (simp add: step_blocked)
    with True show ?thesis by simp
  next
    case False
    have "pc_of c i = At_acquire \<longrightarrow> owner c = None"
    proof
      assume "pc_of c i = At_acquire"
      then have "\<not> in_block (pc_of c i)" by (simp add: in_block_def)
      with reachable_exclusion[OF Suc.prems(1), of i] have "owner c \<noteq> Some i" by simp
      with Suc.prems(2) caller_cases show "owner c = None" by (metis not_Some_eq)
    qed
    from sys_step_progress[OF False this, of e args] Suc.prems(3) show ?thesis by simp
  qed
  from Suc.IH[OF re ow this] show ?case unfolding r .
qed

lemma steps_left_le: "steps_left p \<le> 10"
  by (cases p) simp_all

lemma drain_finishes:
  assumes "reachable e args s ws c"
  shows "pc_of (run_system e args drain c) Caller_a = Done
         \<and> pc_of (run_system e args drain c) Caller_b = Done"
proof -
  let ?c1 = "run_system e args (replicate 10 Caller_a) c"
  let ?c2 = "run_system e args (replicate 10 Caller_b) ?c1"
  let ?c3 = "run_system e args (replicate 10 Caller_a) ?c2"
  have d: "run_system e args drain c = ?c3"
    by (simp add: drain_def run_system_append)
  have r1: "reachable e args s ws ?c1" using assms by (rule reachable_run)
  have r2: "reachable e args s ws ?c2" using r1 by (rule reachable_run)
  have o1: "owner ?c1 \<noteq> Some Caller_a"
  proof (cases "owner c = Some Caller_b")
    case True
    with reachable_exclusion[OF assms, of Caller_a]
    have "pc_of c Caller_a = Done \<or> (pc_of c Caller_a = At_acquire \<and> owner c \<noteq> None)"
      by (auto simp add: in_block_def)
    then have "?c1 = c" by (rule run_blocked)
    with True show ?thesis by simp
  next
    case False
    then have "owner c \<noteq> Some (other Caller_a)" by simp
    from run_to_Done[OF assms this steps_left_le] show ?thesis by simp
  qed
  then have "owner ?c1 \<noteq> Some (other Caller_b)" by simp
  from run_to_Done[OF r1 this steps_left_le]
  have b2: "pc_of ?c2 Caller_b = Done" and o2: "owner ?c2 = None" by simp_all
  from o2 have "owner ?c2 \<noteq> Some (other Caller_a)" by simp
  from run_to_Done[OF r2 this steps_left_le] have a3: "pc_of ?c3 Caller_a = Done" by simp
  have "pc_of ?c3 (other Caller_a) = pc_of ?c2 (other Caller_a)" by (rule run_other)
  with b2 have b3: "pc_of ?c3 Caller_b = Done" by simp
  from a3 b3 show ?thesis unfolding d by simp
qed

lemma arm_of_active:
  assumes "loadout_countdown_active s"
  shows "state (arm_of e args i (w\<lparr>state := s\<rparr>)) = s"
    and "armings (new_events w (arm_of e args i (w\<lparr>state := s\<rparr>))) = []"
proof -
  have a: "arm_of e args i (w\<lparr>state := s\<rparr>)
      = w\<lparr>state := s, trace := trace w @ [Timer_lock_acquire, Timer_lock_release]\<rparr>"
    unfolding arm_of_def using assms by (simp add: arm_active)
  show "state (arm_of e args i (w\<lparr>state := s\<rparr>)) = s" unfolding a by simp
  show "armings (new_events w (arm_of e args i (w\<lparr>state := s\<rparr>))) = []"
    unfolding a by (simp add: new_events_def)
qed

lemma arm_of_inactive:
  assumes "\<not> loadout_countdown_active s"
  shows "state (arm_of e args i (w\<lparr>state := s\<rparr>)) = armed_state e (snd (args i)) (w\<lparr>state := s\<rparr>)"
    and "length (armings (new_events w (arm_of e args i (w\<lparr>state := s\<rparr>)))) = 1"
proof -
  let ?w = "w\<lparr>state := s\<rparr>"
  have na: "\<not> loadout_countdown_active (state ?w)" using assms by simp
  from arm_inactive[OF na, of e "fst (args i)" "snd (args i)"]
  obtain tk where st: "state (arm_of e args i ?w) = armed_state e (snd (args i)) ?w"
    and tk: "set tk \<subseteq> {Ticker_start (seq_val (state ?w) + 1) (mode_of (fst (args i)) (snd (args i)))}"
    and tr: "trace (arm_of e args i ?w) = trace ?w @
          [Timer_lock_acquire,
           Log_loadout_start (seq_val (state ?w) + 1) (mode_of (fst (args i)) (snd (args i)))
             (snd (args i)) (timer_hz ?w)]
          @ tk @ [Timer_lock_release]"
    unfolding arm_of_def by blast
  have tkp: "armings tk = []" using tk by (induction tk) auto
  show "state (arm_of e args i ?w) = armed_state e (snd (args i)) ?w" by (rule st)
  have "trace (arm_of e args i ?w) = trace w @
          [Timer_lock_acquire,
           Log_loadout_start (seq_val (state ?w) + 1) (mode_of (fst (args i)) (snd (args i)))
             (snd (args i)) (timer_hz ?w)]
          @ tk @ [Timer_lock_release]"
    using tr by simp
  from new_events_append[OF this] tkp
  show "length (armings (new_events w (arm_of e args i ?w))) = 1" by simp
qed

lemma armed_state_simps:
  "loadout_countdown_active (armed_state e l w)"
  "seq_val (armed_state e l w) = seq_val (state w) + 1"
  "current_ticker (armed_state e l w) = seq_val (state w) + 1"
  "loadout_left0_ms (armed_state e l w) = l"
  "loadout_t0 (armed_state e l w) = monotonic e (n_monotonic w)"
  by (simp_all add: armed_state_def seq_val_def)

lemma serial_outcome:
  "(loadout_countdown_active s \<longrightarrow>
      shared (serial e args i s ws) = s
      \<and> started ws (serial e args i s ws) i = [] \<and> started ws (serial e args i s ws) (other i) = [])
   \<and> (\<not> loadout_countdown_active s \<longrightarrow>
      shared (serial e args i s ws) = armed_state e (snd (args i)) ((ws i)\<lparr>state := s\<rparr>)
      \<and> length (started ws (serial e args i s ws) i) = 1
      \<and> started ws (serial e args i s ws) (other i) = [])"
proof (intro conjI impI)
  let ?w1 = "arm_of e args i ((ws i)\<lparr>state := s\<rparr>)"
  {
    assume a: "loadout_countdown_active s"
    from arm_of_active[OF a, where e = e and args = args and i = i and w = "ws i"]
    have s1: "state ?w1 = s" and t1: "armings (new_events (ws i) ?w1) = []" by simp_all
    from arm_of_active[OF a, where e = e and args = args and i = "other i" and w = "ws (other i)"] s1
    show "shared (serial e args i s ws) = s"
      and "started ws (serial e args i s ws) i = []"
      and "started ws (serial e args i s ws) (other i) = []"
      using t1 by (simp_all add: started_def)
  }
  {
    assume a: "\<not> loadout_countdown_active s"
    from arm_of_inactive[OF a, where e = e and args = args and i = i and w = "ws i"]
    have s1: "state ?w1 = armed_state e (snd (args i)) ((ws i)\<lparr>state := s\<rparr>)"
      and t1: "length (armings (new_events (ws i) ?w1)) = 1" by simp_all
    have a1: "loadout_countdown_active (state ?w1)" unfolding s1 by (simp add: armed_state_simps)
    from arm_of_active[OF a1, where e = e and args = args and i = "other i" and w = "ws (other i)"] s1
    show "shared (serial e args i s ws) = armed_state e (snd (args i)) ((ws i)\<lparr>state := s\<rparr>)"
      and "length (started ws (serial e args i s ws) i) = 1"
      and "started ws (serial e args i s ws) (other i) = []"
      using t1 by (simp_all add: started_def)
  }
qed

lemma finished_outcome:
  assumes "reachable e args s ws c" and "pc_of c Caller_a = Done" and "pc_of c Caller_b = Done"
  shows "loadout_countdown_active (shared c)"
    and "seq_val (shared c) = seq_val s + (if loadout_countdown_active s then 0 else 1)"
    and "length (started ws c Caller_a) + length (started ws c Caller_b)
           = (if loadout_countdown_active s then 0 else 1)"
    and "loadout_countdown_active s \<longrightarrow> shared c = s"
    and "\<not> loadout_countdown_active s \<longrightarrow> current_ticker (shared c) = seq_val s + 1"
proof -
  from reachable_finished[OF assms] obtain i where c: "c = serial e args i s ws" by blast
  have ab: "length (started ws c Caller_a) + length (started ws c Caller_b)
      = length (started ws c i) + length (started ws c (other i))"
    by (cases i) simp_all
  note o = serial_outcome[where s = s and e = e and args = args and i = i and ws = ws, folded c]
  show "loadout_countdown_active (shared c)"
    using o by (cases "loadout_countdown_active s") (simp_all add: armed_state_simps)
  show "seq_val (shared c) = seq_val s + (if loadout_countdown_active s then 0 else 1)"
    using o by (cases "loadout_countdown_active s") (simp_all add: armed_state_simps)
  show "length (started ws c Caller_a) + length (started ws c Caller_b)
           = (if loadout_countdown_active s then 0 else 1)"
    unfolding ab using o by (cases "loadout_countdown_active s") simp_all
  show "loadout_countdown_active s \<longrightarrow> shared c = s" using o by simp
  show "\<not> loadout_countdown_active s \<longrightarrow> current_ticker (shared c) = seq_val s + 1"
    using o by (simp add: armed_state_simps)
qed

lemma steps_active:
  assumes "loadout_countdown_active (state w0)"
  shows "state (snd ((lock_step e pt l ^^ k) (At_acquire, w0))) = state w0
         \<and> fst ((lock_step e pt l ^^ k) (At_acquire, w0)) \<in> {At_acquire, At_check, At_release, Done}"
proof (induction k)
  case 0
  show ?case by simp
next
  case (Suc k)
  obtain p w where pw: "(lock_step e pt l ^^ k) (At_acquire, w0) = (p, w)" by (metis prod.exhaust)
  with Suc have w: "state w = state w0" and p: "p \<in> {At_acquire, At_check, At_release, Done}"
    by simp_all
  have st: "(lock_step e pt l ^^ Suc k) (At_acquire, w0) = lock_step e pt l (p, w)"
    by (simp add: pw)
  from p consider "p = At_acquire" | "p = At_check" | "p = At_release" | "p = Done" by blast
  then show ?case
    unfolding st using assms w by cases (simp_all add: lock_step_def)
qed

lemma running_active:
  assumes "running e args i w0 c" and "loadout_countdown_active (state w0)"
  shows "shared c = state w0"
proof -
  from assms(1) obtain k where k: "(pc_of c i, locals c i)
       = (lock_step e (fst (args i)) (snd (args i)) ^^ Suc k) (At_acquire, w0)"
    and sh: "shared c = state (locals c i)"
    unfolding running_def by blast
  from k have "locals c i = snd ((lock_step e (fst (args i)) (snd (args i)) ^^ Suc k) (At_acquire, w0))"
    by (metis snd_conv)
  with steps_active[OF assms(2), where e = e and pt = "fst (args i)" and l = "snd (args i)"
      and k = "Suc k"] sh
  show ?thesis by simp
qed

lemma reachable_active:
  assumes "reachable e args s ws c" and "loadout_countdown_active s"
  shows "shared c = s"
proof -
  from assms(1) consider
      (init) "c = start s ws"
    | (first) k where "running e args k ((ws k)\<lparr>state := s\<rparr>) c" "waiting ws (other k) c"
    | (between) k where "left_block e args k ((ws k)\<lparr>state := s\<rparr>) c" "owner c = None"
        "shared c = state (locals c k)" "waiting ws (other k) c"
    | (second) k where "left_block e args k ((ws k)\<lparr>state := s\<rparr>) c"
        "running e args (other k) ((ws (other k))\<lparr>state := state (locals c k)\<rparr>) c"
    | (final) k where "c = serial e args k s ws"
    unfolding reachable_def by blast
  then show ?thesis
  proof cases
    case init
    then show ?thesis by (simp add: start_def)
  next
    case (first k)
    from running_active[OF first(1)] assms(2) show ?thesis by simp
  next
    case (between k)
    from between(1) have "locals c k = arm_of e args k ((ws k)\<lparr>state := s\<rparr>)"
      by (simp add: left_block_def)
    with between(3) arm_of_active(1)[OF assms(2), where e = e and args = args and i = k and w = "ws k"]
    show ?thesis by simp
  next
    case (second k)
    from second(1) have "locals c k = arm_of e args k ((ws k)\<lparr>state := s\<rparr>)"
      by (simp add: left_block_def)
    with arm_of_active(1)[OF assms(2), where e = e and args = args and i = k and w = "ws k"]
    have "state (locals c k) = s" by simp
    with running_active[OF second(2)] assms(2) show ?thesis by simp
  next
    case (final k)
    with serial_outcome[where s = s and e = e and args = args and i = k and ws = ws] assms(2)
    show ?thesis by simp
  qed
qed

lemma shared_changed_by_owner:
  assumes "reachable e args s ws c" and "shared (sys_step e args j c) \<noteq> shared c"
  shows "owner c = Some j"
proof -
  have nb: "\<not> (pc_of c j = Done \<or> (pc_of c j = At_acquire \<and> owner c \<noteq> None))"
  proof
    assume "pc_of c j = Done \<or> (pc_of c j = At_acquire \<and> owner c \<noteq> None)"
    then have "sys_step e args j c = c" by (rule step_blocked)
    with assms(2) show False by simp
  qed
  have "pc_of c j \<noteq> At_acquire"
  proof
    assume a: "pc_of c j = At_acquire"
    with nb have "owner c = None" by simp
    with a have "shared (sys_step e args j c) = shared c"
      by (simp add: sys_step_def lock_step_def)
    with assms(2) show False by simp
  qed
  with nb have "in_block (pc_of c j)" by (simp add: in_block_def)
  with reachable_exclusion[OF assms(1), of j] show ?thesis by simp
qed

section \<open>Why the lock is needed\<close>

text \<open>
  Without the lock, two callers that take turns statement by statement both find the flag
  unset and both start a countdown: the sequence number grows by two and each caller prints a
  start line, with the same identifier.
\<close>

lemma race_without_lock:
  "\<not> loadout_countdown_active idle_state
   \<and> seq_val (shared (fold (racy_step (quiet_env (\<lambda>s. fmempty)) two_args) in_turn
        (start idle_state two_idle))) = seq_val idle_state + 2
   \<and> map (\<lambda>i. trace (locals (fold (racy_step (quiet_env (\<lambda>s. fmempty)) two_args) in_turn
        (start idle_state two_idle)) i)) [Caller_a, Caller_b]
      = [[Timer_lock_acquire, Log_loadout_start 2 ''finalization'' 5000 1000, Ticker_start 2 ''finalization'',
          Timer_lock_release],
         [Timer_lock_acquire, Log_loadout_start 2 ''lcu-probe'' 300 1000, Ticker_start 2 ''lcu-probe'',
          Timer_lock_release]]"
  by code_simp

lemma arming_ids_simps [simp]:
  "arming_ids [] = []"
  "arming_ids (xs @ ys) = arming_ids xs @ arming_ids ys"
  "arming_ids (ev # evs) = (case ev of Log_loadout_start i _ _ _ \<Rightarrow> [i] | _ \<Rightarrow> []) @ arming_ids evs"
  by (simp_all add: arming_ids_def)

lemma arming_ids_none: "armings evs = [] \<Longrightarrow> arming_ids evs = []"
  by (induction evs) (auto split: event.splits)

lemma maybe_start_timer_ids:
  "\<exists>evs. trace (maybe_start_timer e sess w) = trace w @ evs
     \<and> (arming_ids evs = [] \<and> state (maybe_start_timer e sess w) = state w
        \<or> arming_ids evs = [seq_val (state w) + 1] \<and> \<not> loadout_countdown_active (state w)
           \<and> (\<exists>l. state (maybe_start_timer e sess w) = armed_state e l w))"
proof -
  obtain k pevs where pe: "set pevs \<subseteq> {Lcu_session_call, Sleep_60ms}" and
    r: "maybe_start_timer e sess w = w\<lparr>n_session := n_session w + k, trace := trace w @ pevs\<rparr>
      \<or> (\<exists>l. maybe_start_timer e sess w =
             arm e (phase_timer_of (timer_of sess)) l
               (w\<lparr>n_session := n_session w + k, trace := trace w @ pevs\<rparr>))"
    using maybe_start_timer_shape[of e sess w] by blast
  let ?w1 = "w\<lparr>n_session := n_session w + k, trace := trace w @ pevs\<rparr>"
  let ?pt = "phase_timer_of (timer_of sess)"
  have pp: "arming_ids pevs = []" using poll_only_proj[OF pe] by (simp add: arming_ids_none)
  from r show ?thesis
  proof
    assume "maybe_start_timer e sess w = ?w1"
    with pp show ?thesis by (intro exI[of _ pevs]) simp
  next
    assume "\<exists>l. maybe_start_timer e sess w = arm e ?pt l ?w1"
    then obtain l where a: "maybe_start_timer e sess w = arm e ?pt l ?w1" ..
    show ?thesis
    proof (cases "loadout_countdown_active (state w)")
      case True
      then have "arm e ?pt l ?w1 = ?w1\<lparr>trace := trace ?w1 @ [Timer_lock_acquire, Timer_lock_release]\<rparr>"
        by (intro arm_active) simp
      with a pp show ?thesis
        by (intro exI[of _ "pevs @ [Timer_lock_acquire, Timer_lock_release]"]) simp
    next
      case False
      then have na: "\<not> loadout_countdown_active (state ?w1)" by simp
      from arm_inactive[OF na, of e ?pt l]
      obtain tk where st: "state (arm e ?pt l ?w1) = armed_state e l ?w1"
        and tk: "set tk \<subseteq> {Ticker_start (seq_val (state ?w1) + 1) (mode_of ?pt l)}"
        and tr: "trace (arm e ?pt l ?w1) = trace ?w1 @
          [Timer_lock_acquire, Log_loadout_start (seq_val (state ?w1) + 1) (mode_of ?pt l) l (timer_hz ?w1)]
          @ tk @ [Timer_lock_release]"
        by blast
      have tkp: "arming_ids tk = []" using tk by (induction tk) auto
      have as: "armed_state e l ?w1 = armed_state e l w" by (simp add: armed_state_def)
      let ?evs = "pevs @ [Timer_lock_acquire,
          Log_loadout_start (seq_val (state ?w1) + 1) (mode_of ?pt l) l (timer_hz ?w1)]
          @ tk @ [Timer_lock_release]"
      have t: "trace (maybe_start_timer e sess w) = trace w @ ?evs" using a tr by simp
      have i: "arming_ids ?evs = [seq_val (state w) + 1]" using pp tkp by simp
      have s: "state (maybe_start_timer e sess w) = armed_state e l w" using a st as by simp
      from t i s False show ?thesis by blast
    qed
  qed
qed

lemma session_update_ids:
  "\<exists>evs. trace (session_update e sess w) = trace w @ evs
     \<and> (arming_ids evs = []
          \<and> ticker_seq (state (session_update e sess w)) = ticker_seq (state w)
          \<and> current_ticker (state (session_update e sess w)) = current_ticker (state w)
          \<and> loadout_countdown_active (state (session_update e sess w))
              = loadout_countdown_active (state w)
        \<or> arming_ids evs = [seq_val (state w) + 1] \<and> \<not> loadout_countdown_active (state w)
          \<and> loadout_countdown_active (state (session_update e sess w))
          \<and> ticker_seq (state (session_update e sess w)) = Some (seq_val (state w) + 1)
          \<and> current_ticker (state (session_update e sess w)) = seq_val (state w) + 1)"
proof -
  obtain x evs w6 where hs: "handle_session e sess w = (None, maybe_start_timer e sess w6)"
    and w6: "w6 = w\<lparr>state := derived e sess (state w) x, trace := trace w @ evs\<rparr>"
    and ar: "armings evs = []"
    using handle_session_effect[of e sess w] by blast
  obtain evs2 where t2: "trace (maybe_start_timer e sess w6) = trace w6 @ evs2"
    and st: "arming_ids evs2 = [] \<and> state (maybe_start_timer e sess w6) = state w6
        \<or> arming_ids evs2 = [seq_val (state w6) + 1] \<and> \<not> loadout_countdown_active (state w6)
           \<and> (\<exists>l. state (maybe_start_timer e sess w6) = armed_state e l w6)"
    using maybe_start_timer_ids[of e sess w6] by blast
  have su: "session_update e sess w = maybe_start_timer e sess w6"
    by (simp add: session_update_def hs)
  have s6: "state w6 = derived e sess (state w) x" "trace w6 = trace w @ evs" by (simp_all add: w6)
  have sv: "seq_val (state w6) = seq_val (state w)" by (simp add: s6 seq_val_def)
  have t: "trace (session_update e sess w) = trace w @ (evs @ evs2)"
    unfolding su t2 s6 by simp
  have i: "arming_ids (evs @ evs2) = arming_ids evs2" using ar by (simp add: arming_ids_none)
  from st show ?thesis
  proof
    assume "arming_ids evs2 = [] \<and> state (maybe_start_timer e sess w6) = state w6"
    then have "arming_ids (evs @ evs2) = []
          \<and> ticker_seq (state (session_update e sess w)) = ticker_seq (state w)
          \<and> current_ticker (state (session_update e sess w)) = current_ticker (state w)
          \<and> loadout_countdown_active (state (session_update e sess w))
              = loadout_countdown_active (state w)"
      unfolding i su by (simp add: s6)
    with t show ?thesis by blast
  next
    assume "arming_ids evs2 = [seq_val (state w6) + 1] \<and> \<not> loadout_countdown_active (state w6)
           \<and> (\<exists>l. state (maybe_start_timer e sess w6) = armed_state e l w6)"
    then obtain l where "arming_ids evs2 = [seq_val (state w) + 1]"
      "\<not> loadout_countdown_active (state w)"
      "state (maybe_start_timer e sess w6) = armed_state e l w6"
      unfolding sv by (auto simp add: s6)
    then have "arming_ids (evs @ evs2) = [seq_val (state w) + 1] \<and> \<not> loadout_countdown_active (state w)
          \<and> loadout_countdown_active (state (session_update e sess w))
          \<and> ticker_seq (state (session_update e sess w)) = Some (seq_val (state w) + 1)
          \<and> current_ticker (state (session_update e sess w)) = seq_val (state w) + 1"
      unfolding i su using sv by simp
    with t show ?thesis by blast
  qed
qed

lemma handle_phase_current:
  "current_ticker (state (handle_phase d w)) = current_ticker (state w)"
  by (simp add: handle_phase_def Let_def split: data.splits)

lemma handle_hover_current:
  "current_ticker (state (handle_hover e d w)) = current_ticker (state w)"
  by (simp add: handle_hover_def Let_def split: option.splits)

lemma deliver_ids:
  "\<exists>evs. trace (deliver e p w) = trace w @ evs
     \<and> (arming_ids evs = []
          \<and> ticker_seq (state (deliver e p w)) = ticker_seq (state w)
          \<and> current_ticker (state (deliver e p w)) = current_ticker (state w)
        \<or> arming_ids evs = [seq_val (state w) + 1] \<and> \<not> loadout_countdown_active (state w)
          \<and> loadout_countdown_active (state (deliver e p w))
          \<and> ticker_seq (state (deliver e p w)) = Some (seq_val (state w) + 1)
          \<and> current_ticker (state (deliver e p w)) = seq_val (state w) + 1)"
proof -
  have same: "deliver e p w = w \<Longrightarrow> ?thesis"
    by (intro exI[of _ "[]"]) simp
  have su: "deliver e p w = session_update e s w \<Longrightarrow> ?thesis" for s
    using session_update_ids[of e s w] by auto
  have ph: "deliver e p w = handle_phase (data p) w \<Longrightarrow> ?thesis"
    using handle_phase_effect[of "data p" w] handle_phase_current[of "data p" w]
    by (auto simp add: arming_ids_none)
  have ho: "deliver e p w = handle_hover e (data p) w \<Longrightarrow> ?thesis"
    using handle_hover_effect[of e "data p" w] handle_hover_current[of e "data p" w]
    by (auto simp add: arming_ids_none)
  have "deliver e p w = w \<or> (\<exists>s. deliver e p w = session_update e s w)
      \<or> deliver e p w = handle_phase (data p) w \<or> deliver e p w = handle_hover e (data p) w"
    by (auto simp add: deliver_def handle_api_event_def session_update_def
          split: option.splits data.splits)
  with same su ph ho show ?thesis by blast
qed

lemma run_events_ids:
  "arming_ids (new_events w (run_events e ps w))
     = [seq_val (state w) + 1 .. seq_val (state (run_events e ps w))]
   \<and> (arming_ids (new_events w (run_events e ps w)) = [] \<longrightarrow>
        current_ticker (state (run_events e ps w)) = current_ticker (state w))
   \<and> (arming_ids (new_events w (run_events e ps w)) \<noteq> [] \<longrightarrow>
        current_ticker (state (run_events e ps w)) = seq_val (state (run_events e ps w)))"
proof (induction ps arbitrary: w)
  case Nil
  show ?case by (simp add: run_events_def new_events_def)
next
  case (Cons p ps)
  let ?w1 = "deliver e p w"
  let ?w2 = "run_events e ps ?w1"
  obtain a where a: "trace ?w1 = trace w @ a"
    and c: "arming_ids a = []
          \<and> ticker_seq (state ?w1) = ticker_seq (state w)
          \<and> current_ticker (state ?w1) = current_ticker (state w)
        \<or> arming_ids a = [seq_val (state w) + 1] \<and> \<not> loadout_countdown_active (state w)
          \<and> loadout_countdown_active (state ?w1)
          \<and> ticker_seq (state ?w1) = Some (seq_val (state w) + 1)
          \<and> current_ticker (state ?w1) = seq_val (state w) + 1"
    using deliver_ids[of e p w] by blast
  obtain b where b: "trace ?w2 = trace ?w1 @ b" using run_events_trace by blast
  have r: "run_events e (p # ps) w = ?w2" by (simp add: run_events_def)
  have ne: "new_events w ?w2 = a @ b" using new_events_trans[OF a b] a b
    by (simp add: new_events_append)
  have nb: "new_events ?w1 ?w2 = b" using b by (rule new_events_append)
  note ih = Cons.IH[of ?w1, unfolded nb]
  have mono: "seq_val (state ?w1) \<le> seq_val (state ?w2)"
    using run_events_seq_val[of e ps ?w1] by simp
  from c show ?case
  proof
    assume h: "arming_ids a = []
          \<and> ticker_seq (state ?w1) = ticker_seq (state w)
          \<and> current_ticker (state ?w1) = current_ticker (state w)"
    then have "seq_val (state ?w1) = seq_val (state w)" by (simp add: seq_val_def)
    with ih h show ?thesis unfolding r ne by simp
  next
    assume h: "arming_ids a = [seq_val (state w) + 1] \<and> \<not> loadout_countdown_active (state w)
          \<and> loadout_countdown_active (state ?w1)
          \<and> ticker_seq (state ?w1) = Some (seq_val (state w) + 1)
          \<and> current_ticker (state ?w1) = seq_val (state w) + 1"
    then have sv: "seq_val (state ?w1) = seq_val (state w) + 1" by (simp add: seq_val_def)
    from mono sv have le: "seq_val (state w) + 1 \<le> seq_val (state ?w2)" by simp
    have up: "[seq_val (state w) + 1 .. seq_val (state ?w2)]
        = (seq_val (state w) + 1) # [seq_val (state w) + 1 + 1 .. seq_val (state ?w2)]"
      using le by (rule upto_rec1)
    have ids: "arming_ids (a @ b) = [seq_val (state w) + 1 .. seq_val (state ?w2)]"
      using ih h unfolding up sv by simp
    have cur: "current_ticker (state ?w2) = seq_val (state ?w2)"
    proof (cases "arming_ids b = []")
      case True
      with ih have "current_ticker (state ?w2) = current_ticker (state ?w1)"
        and "[seq_val (state ?w1) + 1 .. seq_val (state ?w2)] = []" by simp_all
      moreover from this(2) mono have "seq_val (state ?w2) = seq_val (state ?w1)" by simp
      ultimately show ?thesis using h sv by simp
    next
      case False
      with ih show ?thesis by simp
    qed
    have ne0: "arming_ids (a @ b) \<noteq> []" using h by simp
    have c2: "arming_ids (a @ b) = [] \<longrightarrow> current_ticker (state ?w2) = current_ticker (state w)"
      using ne0 by blast
    have c3: "arming_ids (a @ b) \<noteq> [] \<longrightarrow> current_ticker (state ?w2) = seq_val (state ?w2)"
      using cur by blast
    show ?thesis unfolding r ne using ids c2 c3 by blast
  qed
qed

lemma two_callers_reachable: "reachable e args s ws (two_callers e args s ws sched)"
  unfolding two_callers_def by (rule reachable_run) (rule reachable_start)

lemma two_callers_append:
  "two_callers e args s ws (xs @ ys) = run_system e args ys (two_callers e args s ws xs)"
  by (simp add: two_callers_def run_system_append)

lemma maybe_start_timer_changed:
  "(loadout_countdown_active (state w) \<longrightarrow> state (maybe_start_timer e sess w) = state w)
   \<and> (state (maybe_start_timer e sess w) \<noteq> state w \<longrightarrow>
        \<not> loadout_countdown_active (state w)
        \<and> loadout_countdown_active (state (maybe_start_timer e sess w))
        \<and> seq_val (state (maybe_start_timer e sess w)) = seq_val (state w) + 1
        \<and> current_ticker (state (maybe_start_timer e sess w)) = seq_val (state w) + 1
        \<and> arming_ids (new_events w (maybe_start_timer e sess w)) = [seq_val (state w) + 1])"
proof -
  obtain evs where t: "trace (maybe_start_timer e sess w) = trace w @ evs"
    and c: "arming_ids evs = [] \<and> state (maybe_start_timer e sess w) = state w
        \<or> arming_ids evs = [seq_val (state w) + 1] \<and> \<not> loadout_countdown_active (state w)
           \<and> (\<exists>l. state (maybe_start_timer e sess w) = armed_state e l w)"
    using maybe_start_timer_ids[of e sess w] by blast
  have ne: "new_events w (maybe_start_timer e sess w) = evs" using t by (rule new_events_append)
  from c show ?thesis unfolding ne by (auto simp add: seq_val_def)
qed

lemma arm_armed:
  "\<not> loadout_countdown_active (state w) \<longrightarrow>
        loadout_countdown_active (state (arm e pt l w))
        \<and> loadout_left0_ms (state (arm e pt l w)) = l
        \<and> loadout_t0 (state (arm e pt l w)) = monotonic e (n_monotonic w)
        \<and> seq_val (state w) < seq_val (state (arm e pt l w))
        \<and> seq_val (state (arm e pt l w)) = seq_val (state w) + 1
        \<and> current_ticker (state (arm e pt l w)) = seq_val (state w) + 1"
proof
  assume "\<not> loadout_countdown_active (state w)"
  from arm_inactive[OF this, of e pt l] have "state (arm e pt l w) = armed_state e l w" by blast
  then show "loadout_countdown_active (state (arm e pt l w))
        \<and> loadout_left0_ms (state (arm e pt l w)) = l
        \<and> loadout_t0 (state (arm e pt l w)) = monotonic e (n_monotonic w)
        \<and> seq_val (state w) < seq_val (state (arm e pt l w))
        \<and> seq_val (state (arm e pt l w)) = seq_val (state w) + 1
        \<and> current_ticker (state (arm e pt l w)) = seq_val (state w) + 1"
    by (simp add: seq_val_def)
qed

section \<open>Arming the countdown\<close>

text \<open>
  Claim C5. One attempt: on a state with an active countdown, \<open>arm\<close>, and so
  \<open>_maybe_start_timer\<close>, leaves the shared state, and with it the anchor sample, the anchor
  instant, the sequence number and the active flag, unchanged; on a state without one, \<open>arm\<close>
  stores the sample and the instant, sets the flag, and raises the sequence number by one,
  which becomes the current ticker. A state that \<open>_maybe_start_timer\<close> changed had no active
  countdown and has one now, with the next sequence number, which the start line prints.

  The lock: the block run statement by statement by one thread alone is \<open>arm\<close>. When two
  callers run the block on the same shared state, under any schedule, a caller is between
  taking and releasing the lock (at the test of the flag, at one of the assignments, at the
  log line or at the ticker) exactly when it owns the lock, so the two are never there
  together; only the owner's statements change the shared state; a state with an active
  countdown is never changed; and once both have left the block the system is what one
  call of \<open>arm\<close> after the other gives, in one of the two orders: the flag is set, the
  sequence number has grown by one if no countdown was active and not at all otherwise, and
  the two callers together printed that many start lines. Whatever the schedule did, both
  callers leave the block when each is given ten more steps in turn.

  One epoch at a time: over any run of events the identifiers printed by the start lines are
  the consecutive numbers from the sequence number at the beginning plus one to the sequence
  number at the end, and if there is one, the current ticker at the end is the last of them.
\<close>

theorem arming_is_guarded:
  "(loadout_countdown_active (state w) \<longrightarrow>
      state (arm e pt l w) = state w \<and> state (maybe_start_timer e sess w) = state w)
   \<and> (\<not> loadout_countdown_active (state w) \<longrightarrow>
        loadout_countdown_active (state (arm e pt l w))
        \<and> loadout_left0_ms (state (arm e pt l w)) = l
        \<and> loadout_t0 (state (arm e pt l w)) = monotonic e (n_monotonic w)
        \<and> seq_val (state w) < seq_val (state (arm e pt l w))
        \<and> seq_val (state (arm e pt l w)) = seq_val (state w) + 1
        \<and> current_ticker (state (arm e pt l w)) = seq_val (state w) + 1)
   \<and> (state (maybe_start_timer e sess w) \<noteq> state w \<longrightarrow>
        \<not> loadout_countdown_active (state w)
        \<and> loadout_countdown_active (state (maybe_start_timer e sess w))
        \<and> seq_val (state (maybe_start_timer e sess w)) = seq_val (state w) + 1
        \<and> current_ticker (state (maybe_start_timer e sess w)) = seq_val (state w) + 1
        \<and> arming_ids (new_events w (maybe_start_timer e sess w)) = [seq_val (state w) + 1])
   \<and> (lock_step e pt l ^^ 10) (At_acquire, w) = (Done, arm e pt l w)
   \<and> (in_block (pc_of (two_callers e args s ws sched) i)
        \<longleftrightarrow> owner (two_callers e args s ws sched) = Some i)
   \<and> \<not> (in_block (pc_of (two_callers e args s ws sched) Caller_a)
         \<and> in_block (pc_of (two_callers e args s ws sched) Caller_b))
   \<and> (shared (sys_step e args j (two_callers e args s ws sched))
         \<noteq> shared (two_callers e args s ws sched)
       \<longrightarrow> owner (two_callers e args s ws sched) = Some j)
   \<and> (loadout_countdown_active s \<longrightarrow> shared (two_callers e args s ws sched) = s)
   \<and> (pc_of (two_callers e args s ws sched) Caller_a = Done
       \<and> pc_of (two_callers e args s ws sched) Caller_b = Done \<longrightarrow>
        (two_callers e args s ws sched = serial e args Caller_a s ws
         \<or> two_callers e args s ws sched = serial e args Caller_b s ws)
        \<and> loadout_countdown_active (shared (two_callers e args s ws sched))
        \<and> seq_val (shared (two_callers e args s ws sched))
            = seq_val s + (if loadout_countdown_active s then 0 else 1)
        \<and> length (started ws (two_callers e args s ws sched) Caller_a)
            + length (started ws (two_callers e args s ws sched) Caller_b)
            = (if loadout_countdown_active s then 0 else 1))
   \<and> pc_of (two_callers e args s ws (sched @ drain)) Caller_a = Done
   \<and> pc_of (two_callers e args s ws (sched @ drain)) Caller_b = Done
   \<and> arming_ids (new_events w (run_events e ps w))
       = [seq_val (state w) + 1 .. seq_val (state (run_events e ps w))]
   \<and> (arming_ids (new_events w (run_events e ps w)) \<noteq> [] \<longrightarrow>
        current_ticker (state (run_events e ps w)) = seq_val (state (run_events e ps w)))"
proof -
  let ?c = "two_callers e args s ws sched"
  note re = two_callers_reachable[of e args s ws sched]
  have a1: "loadout_countdown_active (state w) \<longrightarrow>
      state (arm e pt l w) = state w \<and> state (maybe_start_timer e sess w) = state w"
    using maybe_start_timer_changed[of w e sess] by (simp add: arm_active)
  have a3: "state (maybe_start_timer e sess w) \<noteq> state w \<longrightarrow>
        \<not> loadout_countdown_active (state w)
        \<and> loadout_countdown_active (state (maybe_start_timer e sess w))
        \<and> seq_val (state (maybe_start_timer e sess w)) = seq_val (state w) + 1
        \<and> current_ticker (state (maybe_start_timer e sess w)) = seq_val (state w) + 1
        \<and> arming_ids (new_events w (maybe_start_timer e sess w)) = [seq_val (state w) + 1]"
    using maybe_start_timer_changed[of w e sess] by blast
  have x: "in_block (pc_of ?c k) \<longleftrightarrow> owner ?c = Some k" for k
    using re by (rule reachable_exclusion)
  have x2: "\<not> (in_block (pc_of ?c Caller_a) \<and> in_block (pc_of ?c Caller_b))"
    using x[of Caller_a] x[of Caller_b] by auto
  have ch: "shared (sys_step e args j ?c) \<noteq> shared ?c \<longrightarrow> owner ?c = Some j"
    using shared_changed_by_owner[OF re, of j] by blast
  have ac: "loadout_countdown_active s \<longrightarrow> shared ?c = s"
    using reachable_active[OF re] by blast
  have fin: "pc_of ?c Caller_a = Done \<and> pc_of ?c Caller_b = Done \<longrightarrow>
        (?c = serial e args Caller_a s ws \<or> ?c = serial e args Caller_b s ws)
        \<and> loadout_countdown_active (shared ?c)
        \<and> seq_val (shared ?c) = seq_val s + (if loadout_countdown_active s then 0 else 1)
        \<and> length (started ws ?c Caller_a) + length (started ws ?c Caller_b)
            = (if loadout_countdown_active s then 0 else 1)"
  proof
    assume d: "pc_of ?c Caller_a = Done \<and> pc_of ?c Caller_b = Done"
    then have da: "pc_of ?c Caller_a = Done" and db: "pc_of ?c Caller_b = Done" by simp_all
    from reachable_finished[OF re da db] finished_outcome(1,2,3)[OF re da db]
    show "(?c = serial e args Caller_a s ws \<or> ?c = serial e args Caller_b s ws)
        \<and> loadout_countdown_active (shared ?c)
        \<and> seq_val (shared ?c) = seq_val s + (if loadout_countdown_active s then 0 else 1)
        \<and> length (started ws ?c Caller_a) + length (started ws ?c Caller_b)
            = (if loadout_countdown_active s then 0 else 1)"
      by blast
  qed
  have dr: "pc_of (two_callers e args s ws (sched @ drain)) Caller_a = Done"
    "pc_of (two_callers e args s ws (sched @ drain)) Caller_b = Done"
    using drain_finishes[OF re] by (simp_all add: two_callers_append)
  have ids: "arming_ids (new_events w (run_events e ps w))
       = [seq_val (state w) + 1 .. seq_val (state (run_events e ps w))]"
    "arming_ids (new_events w (run_events e ps w)) \<noteq> [] \<longrightarrow>
        current_ticker (state (run_events e ps w)) = seq_val (state (run_events e ps w))"
    using run_events_ids[of w e ps] by blast+
  show ?thesis
    by (intro conjI) (fact a1 arm_armed a3 arm_by_steps x x2 ch ac fin dr ids)+
qed

lemma b_first_eval:
  "owner (two_callers (quiet_env (\<lambda>s. fmempty)) two_args idle_state two_idle b_first) = Some Caller_b"
  "pc_of (two_callers (quiet_env (\<lambda>s. fmempty)) two_args idle_state two_idle b_first) Caller_a = At_acquire"
  "pc_of (two_callers (quiet_env (\<lambda>s. fmempty)) two_args idle_state two_idle b_first) Caller_b = At_left0"
  by code_simp+

lemma b_first_change:
  "loadout_left0_ms (shared (sys_step (quiet_env (\<lambda>s. fmempty)) two_args Caller_b
        (two_callers (quiet_env (\<lambda>s. fmempty)) two_args idle_state two_idle b_first))) = 300"
  "loadout_left0_ms (shared (two_callers (quiet_env (\<lambda>s. fmempty)) two_args idle_state two_idle
        b_first)) = 0"
  by code_simp+

lemma b_first_traces:
  "map (\<lambda>i. trace (locals (two_callers (quiet_env (\<lambda>s. fmempty)) two_args idle_state two_idle
        (b_first @ drain)) i)) [Caller_a, Caller_b]
     = [[Timer_lock_acquire, Timer_lock_release],
        [Timer_lock_acquire, Log_loadout_start 1 ''lcu-probe'' 300 1000, Ticker_start 1 ''lcu-probe'',
         Timer_lock_release]]"
  by code_simp

lemma two_epochs_eval:
  "seq_val (state (run_events (quiet_env (\<lambda>s. fmempty)) two_epochs idle_thread)) = 2"
  by code_simp

lemma finalization_changes:
  "state (maybe_start_timer (quiet_env (\<lambda>s. fmempty)) (timed_session ''FINALIZATION'' 5000) idle_thread)
     \<noteq> state idle_thread"
  by code_simp

theorem arming_is_guarded_witness:
  "state (arm (quiet_env (\<lambda>s. fmempty)) ''FINALIZATION'' 5000 (idle_thread\<lparr>state := busy_state\<rparr>))
     = busy_state
   \<and> state (maybe_start_timer (quiet_env (\<lambda>s. fmempty)) (timed_session ''FINALIZATION'' 5000)
        (idle_thread\<lparr>state := busy_state\<rparr>)) = busy_state
   \<and> loadout_countdown_active (state (arm (quiet_env (\<lambda>s. fmempty)) ''FINALIZATION'' 5000 idle_thread))
   \<and> seq_val (state (arm (quiet_env (\<lambda>s. fmempty)) ''FINALIZATION'' 5000 idle_thread)) = 1
   \<and> arming_ids (new_events idle_thread
        (maybe_start_timer (quiet_env (\<lambda>s. fmempty)) (timed_session ''FINALIZATION'' 5000) idle_thread))
       = [1]
   \<and> owner (two_callers (quiet_env (\<lambda>s. fmempty)) two_args idle_state two_idle b_first) = Some Caller_b
   \<and> in_block (pc_of (two_callers (quiet_env (\<lambda>s. fmempty)) two_args idle_state two_idle b_first) Caller_b)
   \<and> pc_of (two_callers (quiet_env (\<lambda>s. fmempty)) two_args idle_state two_idle b_first) Caller_a
       = At_acquire
   \<and> pc_of (two_callers (quiet_env (\<lambda>s. fmempty)) two_args idle_state two_idle (b_first @ drain)) Caller_a
       = Done
   \<and> pc_of (two_callers (quiet_env (\<lambda>s. fmempty)) two_args idle_state two_idle (b_first @ drain)) Caller_b
       = Done
   \<and> (two_callers (quiet_env (\<lambda>s. fmempty)) two_args idle_state two_idle (b_first @ drain)
         = serial (quiet_env (\<lambda>s. fmempty)) two_args Caller_a idle_state two_idle
       \<or> two_callers (quiet_env (\<lambda>s. fmempty)) two_args idle_state two_idle (b_first @ drain)
         = serial (quiet_env (\<lambda>s. fmempty)) two_args Caller_b idle_state two_idle)
   \<and> seq_val (shared (two_callers (quiet_env (\<lambda>s. fmempty)) two_args idle_state two_idle
        (b_first @ drain))) = 1
   \<and> length (started two_idle (two_callers (quiet_env (\<lambda>s. fmempty)) two_args idle_state two_idle
        (b_first @ drain)) Caller_a)
     + length (started two_idle (two_callers (quiet_env (\<lambda>s. fmempty)) two_args idle_state two_idle
        (b_first @ drain)) Caller_b) = 1
   \<and> map (\<lambda>i. trace (locals (two_callers (quiet_env (\<lambda>s. fmempty)) two_args idle_state two_idle
        (b_first @ drain)) i)) [Caller_a, Caller_b]
       = [[Timer_lock_acquire, Timer_lock_release],
          [Timer_lock_acquire, Log_loadout_start 1 ''lcu-probe'' 300 1000, Ticker_start 1 ''lcu-probe'',
           Timer_lock_release]]
   \<and> arming_ids (new_events idle_thread (run_events (quiet_env (\<lambda>s. fmempty)) two_epochs idle_thread))
       = [1, 2]
   \<and> current_ticker (state (run_events (quiet_env (\<lambda>s. fmempty)) two_epochs idle_thread)) = 2
   \<and> loadout_left0_ms (shared (sys_step (quiet_env (\<lambda>s. fmempty)) two_args Caller_b
        (two_callers (quiet_env (\<lambda>s. fmempty)) two_args idle_state two_idle b_first))) = 300
   \<and> loadout_left0_ms (shared (two_callers (quiet_env (\<lambda>s. fmempty)) two_args idle_state two_idle
        b_first)) = 0
   \<and> shared (two_callers (quiet_env (\<lambda>s. fmempty)) two_args busy_state two_idle in_turn) = busy_state"
proof -
  let ?e = "quiet_env (\<lambda>s. fmempty)"
  let ?b = "idle_thread\<lparr>state := busy_state\<rparr>"
  let ?f = "timed_session ''FINALIZATION'' 5000"
  have hb: "loadout_countdown_active (state ?b)" "state ?b = busy_state"
    by (simp_all add: busy_state_def)
  have hi: "\<not> loadout_countdown_active (state idle_thread)" "seq_val (state idle_thread) = 0"
    "\<not> loadout_countdown_active idle_state" "seq_val idle_state = 0"
    by (simp_all add: idle_thread_def idle_state_def seq_val_def)
  have c1: "state (arm ?e ''FINALIZATION'' 5000 ?b) = busy_state
      \<and> state (maybe_start_timer ?e ?f ?b) = busy_state"
    using arming_is_guarded[where w = ?b and e = ?e and pt = "''FINALIZATION''" and l = 5000
        and sess = ?f, THEN conjunct1] hb
    by simp
  have c2: "loadout_countdown_active (state (arm ?e ''FINALIZATION'' 5000 idle_thread))
      \<and> seq_val (state (arm ?e ''FINALIZATION'' 5000 idle_thread)) = 1"
    using arming_is_guarded[where w = idle_thread and e = ?e and pt = "''FINALIZATION''" and l = 5000,
        THEN conjunct2, THEN conjunct1] hi
    by simp
  have c3: "arming_ids (new_events idle_thread (maybe_start_timer ?e ?f idle_thread)) = [1]"
    using arming_is_guarded[where w = idle_thread and e = ?e and sess = ?f,
        THEN conjunct2, THEN conjunct2, THEN conjunct1] finalization_changes hi
    by simp
  have c4: "in_block (pc_of (two_callers ?e two_args idle_state two_idle b_first) Caller_b)"
    using arming_is_guarded[where e = ?e and args = two_args and s = idle_state and ws = two_idle
        and sched = b_first and i = Caller_b, THEN conjunct2, THEN conjunct2, THEN conjunct2, THEN conjunct2, THEN conjunct1]
      b_first_eval(1)
    by simp
  have c5: "pc_of (two_callers ?e two_args idle_state two_idle (b_first @ drain)) Caller_a = Done"
    "pc_of (two_callers ?e two_args idle_state two_idle (b_first @ drain)) Caller_b = Done"
    using arming_is_guarded[where e = ?e and args = two_args and s = idle_state and ws = two_idle
        and sched = b_first, THEN conjunct2, THEN conjunct2, THEN conjunct2, THEN conjunct2, THEN conjunct2, THEN conjunct2, THEN conjunct2, THEN conjunct2, THEN conjunct2]
    by blast+
  have c6: "(two_callers ?e two_args idle_state two_idle (b_first @ drain)
         = serial ?e two_args Caller_a idle_state two_idle
       \<or> two_callers ?e two_args idle_state two_idle (b_first @ drain)
         = serial ?e two_args Caller_b idle_state two_idle)
      \<and> seq_val (shared (two_callers ?e two_args idle_state two_idle (b_first @ drain))) = 1
      \<and> length (started two_idle (two_callers ?e two_args idle_state two_idle (b_first @ drain)) Caller_a)
        + length (started two_idle (two_callers ?e two_args idle_state two_idle (b_first @ drain)) Caller_b)
        = 1"
    using arming_is_guarded[where e = ?e and args = two_args and s = idle_state and ws = two_idle
        and sched = "b_first @ drain", THEN conjunct2, THEN conjunct2, THEN conjunct2, THEN conjunct2, THEN conjunct2, THEN conjunct2, THEN conjunct2, THEN conjunct2, THEN conjunct1]
      c5 hi
    by simp
  have c7: "arming_ids (new_events idle_thread (run_events ?e two_epochs idle_thread)) = [1, 2]"
    using arming_is_guarded[where e = ?e and w = idle_thread and ps = two_epochs, THEN conjunct2, THEN conjunct2, THEN conjunct2, THEN conjunct2, THEN conjunct2, THEN conjunct2, THEN conjunct2, THEN conjunct2, THEN conjunct2, THEN conjunct2, THEN conjunct2, THEN conjunct1]
      hi two_epochs_eval
    by (simp add: upto.simps)
  have c8: "current_ticker (state (run_events ?e two_epochs idle_thread)) = 2"
    using arming_is_guarded[where e = ?e and w = idle_thread and ps = two_epochs, THEN conjunct2, THEN conjunct2, THEN conjunct2, THEN conjunct2, THEN conjunct2, THEN conjunct2, THEN conjunct2, THEN conjunct2, THEN conjunct2, THEN conjunct2, THEN conjunct2, THEN conjunct2]
      c7 two_epochs_eval
    by simp
  have ne: "shared (sys_step ?e two_args Caller_b (two_callers ?e two_args idle_state two_idle b_first))
      \<noteq> shared (two_callers ?e two_args idle_state two_idle b_first)"
  proof
    assume "shared (sys_step ?e two_args Caller_b (two_callers ?e two_args idle_state two_idle b_first))
      = shared (two_callers ?e two_args idle_state two_idle b_first)"
    then have "loadout_left0_ms
        (shared (sys_step ?e two_args Caller_b (two_callers ?e two_args idle_state two_idle b_first)))
      = loadout_left0_ms (shared (two_callers ?e two_args idle_state two_idle b_first))"
      by simp
    then show False unfolding b_first_change by simp
  qed
  have c9: "owner (two_callers ?e two_args idle_state two_idle b_first) = Some Caller_b"
    using arming_is_guarded[where e = ?e and args = two_args and s = idle_state and ws = two_idle
        and sched = b_first and j = Caller_b, THEN conjunct2, THEN conjunct2, THEN conjunct2,
        THEN conjunct2, THEN conjunct2, THEN conjunct2, THEN conjunct1]
      ne
    by blast
  have c10: "shared (two_callers ?e two_args busy_state two_idle in_turn) = busy_state"
    using arming_is_guarded[where e = ?e and args = two_args and s = busy_state and ws = two_idle
        and sched = in_turn, THEN conjunct2, THEN conjunct2, THEN conjunct2, THEN conjunct2,
        THEN conjunct2, THEN conjunct2, THEN conjunct2, THEN conjunct1]
    by (simp add: busy_state_def)
  show ?thesis
    using c1 c2 c3 c4 c5 c6 c7 c8 c9 c10 b_first_eval(2) b_first_change b_first_traces by blast
qed

end
